theory Spec2Isabelle
  imports Complex_Main "HOL-Library.Multiset"
begin

chapter \<open>The embedding\<close>

section \<open>Python strings\<close>

text \<open>
  A Python \<open>str\<close> is modelled as a \<open>string\<close>, each \<open>char\<close> standing for one code point
  below 256 (Latin-1). The functions below are the library methods the sources call, on
  that range.
\<close>

text \<open>\<open>str.lower\<close> on one code point: \<open>A\<close>..\<open>Z\<close> and the Latin-1 capitals
  (192..222 without the multiplication sign 215) gain bit 5, which adds 32.\<close>

fun lower_char :: "char \<Rightarrow> char" where
  "lower_char (Char b0 b1 b2 b3 b4 b5 b6 b7) =
     (let n = (of_char (Char b0 b1 b2 b3 b4 b5 b6 b7) :: nat)
      in if (65 \<le> n \<and> n \<le> 90) \<or> (192 \<le> n \<and> n \<le> 222 \<and> n \<noteq> 215)
         then Char b0 b1 b2 b3 b4 True b6 b7
         else Char b0 b1 b2 b3 b4 b5 b6 b7)"

definition lower :: "string \<Rightarrow> string" where
  "lower s = map lower_char s"

text \<open>\<open>s.startswith(p)\<close>.\<close>

fun startswith :: "string \<Rightarrow> string \<Rightarrow> bool" where
  "startswith [] s = True"
| "startswith (p # ps) [] = False"
| "startswith (p # ps) (c # cs) = (p = c \<and> startswith ps cs)"

text \<open>\<open>sub in s\<close>: \<open>sub\<close> occurs in \<open>s\<close> as a contiguous substring.\<close>

fun contains :: "string \<Rightarrow> string \<Rightarrow> bool" where
  "contains sub [] = (sub = [])"
| "contains sub (c # cs) = (startswith sub (c # cs) \<or> contains sub cs)"

text \<open>\<open>str.isspace\<close> on one code point below 256: tab to carriage return, the
  separators 28..31, space, NEL (133) and the no-break space (160).\<close>

definition is_space :: "char \<Rightarrow> bool" where
  "is_space c =
     (let n = (of_char c :: nat)
      in (9 \<le> n \<and> n \<le> 13) \<or> (28 \<le> n \<and> n \<le> 32) \<or> n = 133 \<or> n = 160)"

text \<open>\<open>s.strip()\<close>.\<close>

definition strip :: "string \<Rightarrow> string" where
  "strip s = rev (dropWhile is_space (rev (dropWhile is_space s)))"


text \<open>\<open>line.split(":", 1)[1]\<close>: the text after the first colon. The sources call it
  only on a line that starts with a prefix ending in a colon, where the index 1 exists.\<close>

definition split_colon_1 :: "string \<Rightarrow> string" where
  "split_colon_1 line = tl (dropWhile (\<lambda>c. c \<noteq> CHR '':'') line)"


section \<open>Model routing: \<open>data_script/llm_utils.py\<close>\<close>

text \<open>The three modules of \<open>backend.llms\<close> that \<open>get_llm_module\<close> can return.\<close>

datatype llm_module = Qwen | Doubao | Mid_journey

definition get_llm_module :: "string \<Rightarrow> llm_module" where
  "get_llm_module model_name =
     (let model_lower = lower model_name
      in if contains ''qwen'' model_lower then Qwen
         else if contains ''doubao'' model_lower then Doubao
         else if contains ''gpt'' model_lower then Mid_journey
         else Doubao)"


section \<open>Retry loops: \<open>run_experiment.py\<close> and \<open>data_script/llm_utils.py\<close>\<close>

text \<open>
  A Python exception, as far as the sources look at it: its class (for the
  \<open>except (RateLimitError, APIError)\<close> clause), \<open>type(e).__name__\<close> and \<open>str(e)\<close>.
\<close>

datatype exc_class = RateLimitError | APIError | OtherException

record py_exception =
  exc_class :: exc_class
  exc_type_name :: string
  exc_str :: string

text \<open>What one awaited call of \<open>user_sys_call_with_model\<close> does: it returns the reply
  text or raises.\<close>

datatype call_outcome = Returned string | Raised py_exception

text \<open>The observable events of a retry loop, in order: the remote call of an attempt
  and \<open>asyncio.sleep(delay)\<close>.\<close>

datatype event = Call nat | Sleep int

text \<open>The dictionary \<open>{"index": ..., "result": ..., "error": ...}\<close> a request returns.\<close>

record request_result =
  res_index :: nat
  res_result :: "string option"
  res_error :: "string option"

text \<open>\<open>last_error = str(e) if str(e) else f"{type(e).__name__}"\<close>.\<close>

definition last_error_of :: "py_exception \<Rightarrow> string" where
  "last_error_of e = (if exc_str e \<noteq> [] then exc_str e else exc_type_name e)"

text \<open>
  The body of \<open>execute_single_request\<close> inside \<open>async with semaphore\<close>: the loop
  \<open>for attempt in range(len(retry_delays) + 1)\<close>, from the attempt \<open>attempt\<close> on, with
  the events so far in \<open>tr\<close>. \<open>call k\<close> is what the remote call of attempt \<open>k\<close> does.
  Every exception is caught by \<open>except Exception\<close>; a loop that ends without
  \<open>return\<close> makes the coroutine return \<open>None\<close>.
\<close>

function execute_attempts ::
  "(nat \<Rightarrow> call_outcome) \<Rightarrow> int list \<Rightarrow> nat \<Rightarrow> nat \<Rightarrow> event list
     \<Rightarrow> event list \<times> request_result option" where
  "execute_attempts call retry_delays index attempt tr =
     (if attempt < length retry_delays + 1 then
        (let tr1 = (if attempt = 0 then tr @ [Call attempt]
                    else tr @ [Sleep (retry_delays ! (attempt - 1)), Call attempt])
         in case call attempt of
              Returned text \<Rightarrow>
                (tr1, Some \<lparr>res_index = index, res_result = Some text, res_error = None\<rparr>)
            | Raised e \<Rightarrow>
                if attempt = length retry_delays
                then (tr1, Some \<lparr>res_index = index, res_result = None,
                                 res_error = Some (last_error_of e)\<rparr>)
                else execute_attempts call retry_delays index (attempt + 1) tr1)
      else (tr, None))"
  by pat_completeness auto
termination
  by (relation "measure (\<lambda>(call, retry_delays, index, attempt, tr).
                  length retry_delays + 1 - attempt)") auto

text \<open>\<open>execute_single_request\<close> with its local \<open>retry_delays = [5, 10, 30]\<close>.\<close>

definition execute_single_request ::
  "(nat \<Rightarrow> call_outcome) \<Rightarrow> nat \<Rightarrow> event list \<times> request_result option" where
  "execute_single_request call index = execute_attempts call [5, 10, 30] index 0 []"

text \<open>
  The test of line 140 of \<open>llm_utils.py\<close> on the lower-cased error text of a result:
  \<open>'429' in error_msg or 'rate limit' in error_msg or 'too many requests' in error_msg\<close>.
\<close>

definition rate_limit_text :: "string \<Rightarrow> bool" where
  "rate_limit_text error_msg =
     (contains ''429'' error_msg \<or> contains ''rate limit'' error_msg
      \<or> contains ''too many requests'' error_msg)"

text \<open>One result dictionary of \<open>llm_module.concurrent_user_sys_call\<close>; \<open>None\<close> in
  \<open>b_error\<close> is a missing or \<open>None\<close> entry.\<close>

record batch_result =
  b_result :: "string option"
  b_error :: "string option"

text \<open>The loop over the results that sets \<open>has_rate_limit_error\<close> and breaks; an
  empty error text is falsy.\<close>

fun has_rate_limit_error :: "batch_result list \<Rightarrow> bool" where
  "has_rate_limit_error [] = False"
| "has_rate_limit_error (r # rs) =
     (case b_error r of
        None \<Rightarrow> has_rate_limit_error rs
      | Some err \<Rightarrow>
          if err \<noteq> [] \<and> rate_limit_text (lower err) then True
          else has_rate_limit_error rs)"

datatype batch_outcome = Batch_returned "batch_result list" | Batch_raised py_exception

text \<open>How \<open>concurrent_user_sys_call_with_retry\<close> ends: it raises (the exception of the
  remote call again, or \<open>UnboundLocalError\<close> at the final \<open>return results\<close>), or
  returns the results.\<close>

datatype retry_error = Reraised py_exception | UnboundLocalError

text \<open>\<open>requests[0].get("model_name", "doubao-seed-1-6-250615")\<close> and the choice of
  the module; \<open>doubao\<close> for an empty request list.\<close>

definition choose_module :: "string option list \<Rightarrow> llm_module" where
  "choose_module model_names =
     (case model_names of
        [] \<Rightarrow> Doubao
      | None # _ \<Rightarrow> get_llm_module ''doubao-seed-1-6-250615''
      | Some model_name # _ \<Rightarrow> get_llm_module model_name)"

text \<open>Whether \<open>except (RateLimitError, APIError)\<close> catches the exception: when the
  \<open>openai\<close> package cannot be imported both names are bound to \<open>Exception\<close>.\<close>

definition caught_as_api_error :: "bool \<Rightarrow> py_exception \<Rightarrow> bool" where
  "caught_as_api_error openai_installed e =
     (\<not> openai_installed \<or> exc_class e = RateLimitError \<or> exc_class e = APIError)"

text \<open>
  The loop \<open>for attempt in range(max_retries + 1)\<close> of
  \<open>concurrent_user_sys_call_with_retry\<close> from the attempt \<open>attempt\<close> on. \<open>call m k\<close> is
  what \<open>llm_module.concurrent_user_sys_call\<close> of module \<open>m\<close> does at attempt \<open>k\<close>;
  \<open>results\<close> is the variable of that name, \<open>None\<close> while it is unbound.
\<close>

function retry_attempts ::
  "bool \<Rightarrow> (llm_module \<Rightarrow> nat \<Rightarrow> batch_outcome) \<Rightarrow> string option list \<Rightarrow> int list
     \<Rightarrow> nat \<Rightarrow> batch_result list option \<Rightarrow> event list
     \<Rightarrow> event list \<times> (retry_error + batch_result list)" where
  "retry_attempts openai_installed call requests retry_delays attempt results tr =
     (let max_retries = length retry_delays in
      if attempt < max_retries + 1 then
        (case call (choose_module requests) attempt of
           Batch_returned results' \<Rightarrow>
             if \<not> has_rate_limit_error results' then (tr @ [Call attempt], Inr results')
             else if attempt < max_retries
             then retry_attempts openai_installed call requests retry_delays (attempt + 1)
                    (Some results') (tr @ [Call attempt, Sleep (retry_delays ! attempt)])
             else (tr @ [Call attempt], Inr results')
         | Batch_raised e \<Rightarrow>
             if caught_as_api_error openai_installed e then
               (let error_msg = lower (exc_str e) in
                if contains ''429'' error_msg \<or> contains ''rate limit'' error_msg then
                  if attempt < max_retries
                  then retry_attempts openai_installed call requests retry_delays
                         (attempt + 1) results
                         (tr @ [Call attempt, Sleep (retry_delays ! attempt)])
                  else (tr @ [Call attempt], Inl (Reraised e))
                else (tr @ [Call attempt], Inl (Reraised e)))
             else (tr @ [Call attempt], Inl (Reraised e)))
      else (tr, case results of None \<Rightarrow> Inl UnboundLocalError | Some rs \<Rightarrow> Inr rs))"
  by pat_completeness auto
termination
  by (relation "measure (\<lambda>(openai_installed, call, requests, retry_delays, attempt, results, tr).
                  length retry_delays + 1 - attempt)") auto

definition concurrent_user_sys_call_with_retry ::
  "bool \<Rightarrow> (llm_module \<Rightarrow> nat \<Rightarrow> batch_outcome) \<Rightarrow> string option list \<Rightarrow> int list
     \<Rightarrow> event list \<times> (retry_error + batch_result list)" where
  "concurrent_user_sys_call_with_retry openai_installed call requests retry_delays =
     retry_attempts openai_installed call requests retry_delays 0 None []"

text \<open>The events of a task that fails at every attempt and is retried after each
  delay of the sequence, from attempt \<open>k\<close> on.\<close>

fun retried_events :: "nat \<Rightarrow> int list \<Rightarrow> event list" where
  "retried_events k [] = []"
| "retried_events k (d # ds) = Sleep d # Call (k + 1) # retried_events (k + 1) ds"


declare execute_attempts.simps [simp del]
declare retry_attempts.simps [simp del]

text \<open>Concrete remote behaviours: a call that raises the same exception at every
  attempt, for the single request and for the batch.\<close>

definition always_raises :: "py_exception \<Rightarrow> nat \<Rightarrow> call_outcome" where
  "always_raises e attempt = Raised e"

definition batch_always_raises :: "py_exception \<Rightarrow> llm_module \<Rightarrow> nat \<Rightarrow> batch_outcome" where
  "batch_always_raises e m attempt = Batch_raised e"

definition batch_always_returns ::
  "batch_result list \<Rightarrow> llm_module \<Rightarrow> nat \<Rightarrow> batch_outcome" where
  "batch_always_returns rs m attempt = Batch_returned rs"

definition invalid_payload :: py_exception where
  "invalid_payload =
     \<lparr>exc_class = OtherException, exc_type_name = ''ValueError'',
      exc_str = ''invalid payload''\<rparr>"

definition too_many_requests :: py_exception where
  "too_many_requests =
     \<lparr>exc_class = APIError, exc_type_name = ''APIError'',
      exc_str = ''Too Many Requests''\<rparr>"

text \<open>
  The outcomes of an attempt after which the loop of
  \<open>concurrent_user_sys_call_with_retry\<close> sleeps and goes on to the next attempt, when
  one is left: results that hold a rate-limit error, or a caught exception whose text
  passes the test of line 160.
\<close>

definition retried :: "bool \<Rightarrow> batch_outcome \<Rightarrow> bool" where
  "retried openai_installed outcome =
     (case outcome of
        Batch_returned results \<Rightarrow> has_rate_limit_error results
      | Batch_raised e \<Rightarrow>
          caught_as_api_error openai_installed e
          \<and> (contains ''429'' (lower (exc_str e))
               \<or> contains ''rate limit'' (lower (exc_str e))))"

text \<open>How the function ends at an attempt that is not retried.\<close>

definition ended_by :: "batch_outcome \<Rightarrow> retry_error + batch_result list" where
  "ended_by outcome =
     (case outcome of
        Batch_returned results \<Rightarrow> Inr results
      | Batch_raised e \<Rightarrow> Inl (Reraised e))"

text \<open>A remote behaviour given attempt by attempt: the listed outcomes, then the
  last one for ever.\<close>

fun outcome_at :: "'a list \<Rightarrow> 'a \<Rightarrow> nat \<Rightarrow> 'a" where
  "outcome_at [] final attempt = final"
| "outcome_at (x # xs) final 0 = x"
| "outcome_at (x # xs) final (Suc attempt) = outcome_at xs final attempt"

definition batch_outcomes ::
  "batch_outcome list \<Rightarrow> batch_outcome \<Rightarrow> llm_module \<Rightarrow> nat \<Rightarrow> batch_outcome" where
  "batch_outcomes xs final m attempt = outcome_at xs final attempt"

definition rate_limited :: py_exception where
  "rate_limited =
     \<lparr>exc_class = RateLimitError, exc_type_name = ''RateLimitError'',
      exc_str = ''Error code: 429''\<rparr>"

definition mixed_results :: "batch_result list" where
  "mixed_results =
     [\<lparr>b_result = None, b_error = Some ''invalid payload''\<rparr>,
      \<lparr>b_result = None, b_error = Some ''Error code: 429''\<rparr>]"



section \<open>The concurrency governor: \<open>asyncio.Semaphore\<close>\<close>

text \<open>
  \<open>parser.add_argument("--concurrency", type=int, default=30)\<close>: the value of
  \<open>args.concurrency\<close>, given what the command line holds for the option.
\<close>

definition concurrency_arg :: "int option \<Rightarrow> int" where
  "concurrency_arg given = (case given of None \<Rightarrow> 30 | Some c \<Rightarrow> c)"

text \<open>
  \<open>asyncio.Semaphore(value)\<close>: the constructor of the standard library raises
  \<open>ValueError\<close> for a negative value and otherwise stores the value as the number of
  free slots. The sources call it with \<open>args.concurrency\<close> or \<open>concurrency_limit\<close>
  and no test of their own.
\<close>

datatype value_error = ValueError

definition Semaphore :: "int \<Rightarrow> value_error + nat" where
  "Semaphore v = (if v < 0 then Inl ValueError else Inr (nat v))"

text \<open>
  Where a task (\<open>delayed_request\<close>, \<open>controlled_request\<close>, \<open>execute_single_request\<close>,
  \<open>process_student_with_delay\<close>) stands: before or in its spreading sleep, waiting at
  \<open>async with semaphore\<close>, inside the block (it holds a slot; the remote call and the
  buffering of its result happen here), or past the block.
\<close>

datatype task_pc = Delayed | Waiting | Admitted | Finished

record sched_state =
  sem_value :: nat
  pcs :: "task_pc list"

text \<open>
  One step of the event loop on one task. Entering the block needs a free slot and takes
  it; leaving the block gives it back. The tasks of \<open>asyncio.gather\<close> take their steps
  in any order.
\<close>

inductive step :: "sched_state \<Rightarrow> sched_state \<Rightarrow> bool" where
  wake: "i < length (pcs s) \<Longrightarrow> pcs s ! i = Delayed \<Longrightarrow>
         step s (s\<lparr>pcs := (pcs s)[i := Waiting]\<rparr>)"
| acquire: "i < length (pcs s) \<Longrightarrow> pcs s ! i = Waiting \<Longrightarrow> 0 < sem_value s \<Longrightarrow>
         step s (s\<lparr>sem_value := sem_value s - 1, pcs := (pcs s)[i := Admitted]\<rparr>)"
| release: "i < length (pcs s) \<Longrightarrow> pcs s ! i = Admitted \<Longrightarrow>
         step s (s\<lparr>sem_value := sem_value s + 1, pcs := (pcs s)[i := Finished]\<rparr>)"

text \<open>The state after the tasks are created: \<open>n\<close> tasks, none started.\<close>

definition start :: "nat \<Rightarrow> nat \<Rightarrow> sched_state" where
  "start permits n = \<lparr>sem_value = permits, pcs = replicate n Delayed\<rparr>"

inductive reachable :: "nat \<Rightarrow> nat \<Rightarrow> sched_state \<Rightarrow> bool" for permits n where
  initial: "reachable permits n (start permits n)"
| after: "reachable permits n s \<Longrightarrow> step s s' \<Longrightarrow> reachable permits n s'"

text \<open>The number of tasks inside the block.\<close>

definition admitted :: "sched_state \<Rightarrow> nat" where
  "admitted s = length (filter (\<lambda>p. p = Admitted) (pcs s))"


section \<open>Files on disk\<close>

text \<open>
  A CSV file as the sources see it: \<open>os.path.exists\<close> is false (\<open>Missing\<close>); or
  \<open>pd.read_csv\<close>, or the lookup of a column in what it returns, raises (\<open>Unreadable\<close>);
  or the file is a header line followed by rows (\<open>Csv\<close>).
\<close>

datatype 'row csv_file = Missing | Unreadable | Csv "'row list"

fun store_rows :: "'row csv_file \<Rightarrow> 'row list" where
  "store_rows (Csv rows) = rows"
| "store_rows Missing = []"
| "store_rows Unreadable = []"

text \<open>What \<open>save_results_batch\<close> prints: line 121 with the number of rows, or
  line 123 in the \<open>except\<close> clause.\<close>

datatype save_print = Print_saved nat | Print_save_failed

text \<open>
  The state the persisting code works on: the results file, the number of \<open>to_csv\<close>
  calls made so far, what \<open>save_results_batch\<close> printed, and the variables
  \<open>batch_results\<close>, \<open>is_first_batch\<close>, \<open>total_saved\<close> and (keys only)
  \<open>student_results_map\<close> of \<open>main\<close>.
\<close>

record 'row run_state =
  results_file :: "'row csv_file"
  to_csv_calls :: nat
  printed :: "save_print list"
  batch_results :: "'row list"
  is_first_batch :: bool
  total_saved :: nat
  student_results_map :: "int list"

text \<open>\<open>to_csv(mode='a', header=False)\<close> on an existing file.\<close>

fun append_rows :: "'row csv_file \<Rightarrow> 'row list \<Rightarrow> 'row csv_file" where
  "append_rows (Csv rows) batch = Csv (rows @ batch)"
| "append_rows Unreadable batch = Unreadable"
| "append_rows Missing batch = Csv batch"

text \<open>
  \<open>save_results_batch(batch_results, results_path, is_first_batch)\<close>, the same text in
  \<open>assess_mastery.py\<close> and \<open>generate_tutoring_content.py\<close>. \<open>disk k\<close> tells whether
  the \<open>to_csv\<close> call number \<open>k\<close> succeeds; a call that raises leaves the file as it
  was. The exception is caught and printed, and the function returns normally either
  way.
\<close>

definition save_results_batch ::
  "(nat \<Rightarrow> bool) \<Rightarrow> 'row list \<Rightarrow> bool \<Rightarrow> 'row run_state \<Rightarrow> 'row run_state" where
  "save_results_batch disk batch first st =
     (if batch = [] then st
      else if disk (to_csv_calls st)
      then st\<lparr>results_file :=
                 (if first \<or> results_file st = Missing then Csv batch
                  else append_rows (results_file st) batch),
               to_csv_calls := to_csv_calls st + 1,
               printed := printed st @ [Print_saved (length batch)]\<rparr>
      else st\<lparr>to_csv_calls := to_csv_calls st + 1,
               printed := printed st @ [Print_save_failed]\<rparr>)"

text \<open>
  The block under \<open>batch_lock\<close> in \<open>delayed_request\<close> and \<open>controlled_request\<close>
  (lines 721-730 and 805-814): append the record, and at \<open>BATCH_SIZE\<close> records save,
  count, clear.
\<close>

definition BATCH_SIZE :: nat where
  "BATCH_SIZE = 100"

definition buffer_outcome ::
  "(nat \<Rightarrow> bool) \<Rightarrow> nat \<Rightarrow> 'row run_state \<Rightarrow> 'row \<Rightarrow> 'row run_state" where
  "buffer_outcome disk batch_size st result_record =
     (let st1 = st\<lparr>batch_results := batch_results st @ [result_record]\<rparr>
      in if length (batch_results st1) \<ge> batch_size
         then (let st2 = save_results_batch disk (batch_results st1) (is_first_batch st1) st1
               in st2\<lparr>total_saved := total_saved st2 + length (batch_results st2),
                      batch_results := [],
                      is_first_batch := False\<rparr>)
         else st1)"

text \<open>The block after \<open>asyncio.gather\<close> (lines 754-759 and 832-837). The blocks
  after the loops of phase 4 and of the tutoring script save in the same way; they leave
  the list, which is not used again, as it is.\<close>

definition flush_remaining :: "(nat \<Rightarrow> bool) \<Rightarrow> 'row run_state \<Rightarrow> 'row run_state" where
  "flush_remaining disk st =
     (if batch_results st \<noteq> []
      then (let st2 = save_results_batch disk (batch_results st) (is_first_batch st) st
            in st2\<lparr>total_saved := total_saved st2 + length (batch_results st2),
                   batch_results := []\<rparr>)
      else st)"

text \<open>The variables of \<open>main\<close> before the tasks are created (lines 664-668).\<close>

definition initial_state :: "'row csv_file \<Rightarrow> 'row run_state" where
  "initial_state file =
     \<lparr>results_file = file, to_csv_calls = 0, printed = [], batch_results = [],
      is_first_batch = (file = Missing), total_saved = 0, student_results_map = []\<rparr>"

text \<open>
  The loop of \<open>main\<close> in \<open>generate_tutoring_content.py\<close> over the completed students
  (lines 717-752), for one \<open>(student_id, results, error)\<close>: a truthy \<open>error\<close> is only
  logged; otherwise non-empty \<open>results\<close> extend \<open>all_results\<close>; then
  \<open>len(all_results) >= batch_size\<close> saves and resets. \<open>batch_size\<close> is 10 there.
\<close>

definition tutoring_batch_size :: nat where
  "tutoring_batch_size = 10"

definition student_completed ::
  "(nat \<Rightarrow> bool) \<Rightarrow> nat \<Rightarrow> 'row run_state \<Rightarrow> 'row list \<times> string option \<Rightarrow> 'row run_state" where
  "student_completed disk batch_size st outcome =
     (let results = fst outcome; error = snd outcome;
          st1 = (if error \<noteq> None \<and> error \<noteq> Some [] then st
                 else if results \<noteq> []
                 then st\<lparr>batch_results := batch_results st @ results\<rparr>
                 else st)
      in if length (batch_results st1) \<ge> batch_size
         then (let st2 = save_results_batch disk (batch_results st1) (is_first_batch st1) st1
               in st2\<lparr>batch_results := [], is_first_batch := False\<rparr>)
         else st1)"


section \<open>Manifest and results: \<open>assess_mastery.py\<close>\<close>


text \<open>The dictionary \<open>result_record\<close> that the tasks build and \<open>to_csv\<close> writes, one
  line of the results file.\<close>

record result_record =
  student_id :: int
  kc_name :: string
  mastery_level :: string
  rationale :: string
  suggestions :: string
  llm_raw_response :: string
  prompt_system :: string
  prompt_user :: string













section \<open>Parsing a reply: \<open>parse_llm_response\<close>\<close>

record parsed_data =
  Mastery_Level :: string
  Rationale :: string
  Suggestions :: string






section \<open>One run of a mode: \<open>main\<close> of \<open>assess_mastery.py\<close>\<close>











section \<open>Auxiliary notions and concrete inputs\<close>

text \<open>
  A state is consistent when \<open>is_first_batch\<close> is set only while the results file is
  missing, and the file can be read. Its rows are those on disk followed by those still
  in the buffer.
\<close>

definition consistent :: "'row run_state \<Rightarrow> bool" where
  "consistent st = ((is_first_batch st \<longrightarrow> results_file st = Missing)
                     \<and> results_file st \<noteq> Unreadable)"

definition all_rows :: "'row run_state \<Rightarrow> 'row list" where
  "all_rows st = store_rows (results_file st) @ batch_results st"

text \<open>A disk on which every \<open>to_csv\<close> call succeeds, and one on which every call
  raises.\<close>

definition always_succeeds :: "nat \<Rightarrow> bool" where
  "always_succeeds k = True"

definition always_fails :: "nat \<Rightarrow> bool" where
  "always_fails k = False"




section \<open>Example questions: \<open>_select_three_questions_for_kc\<close>\<close>

text \<open>\<open>_truncate_text(text, max_length=150)\<close>; \<open>None\<close> is a value that is not a
  \<open>str\<close>.\<close>

definition truncate_text :: "string option \<Rightarrow> string" where
  "truncate_text text =
     (case text of
        None \<Rightarrow> []
      | Some t \<Rightarrow>
          (let t' = strip t
           in if length t' > 150 then take 150 t' @ ''...'' else t'))"

text \<open>A row of \<open>question_choices_df\<close>.\<close>

record choice_row =
  c_question_id :: nat
  c_choice_text :: string
  c_is_correct :: bool

text \<open>A rendered choice; the letter \<open>chr(65 + i)\<close> is kept as its code point.\<close>

record rendered_choice =
  rc_letter :: nat
  rc_text :: string

text \<open>An entry of \<open>picked\<close>.\<close>

record picked_question =
  question_id :: nat
  question_text :: string
  choices :: "rendered_choice list"
  correct_letter :: "nat option"
  correct_text :: "string option"

text \<open>\<open>chr\<close> raises \<open>ValueError\<close> beyond the last code point, so the list of letters
  exists only for at most 1114047 choices.\<close>

datatype select_error = Chr_ValueError

definition letters_for :: "nat \<Rightarrow> select_error + nat list" where
  "letters_for n =
     (if 65 + n > 1114112 then Inl Chr_ValueError else Inr (map (\<lambda>i. 65 + i) [0..<n]))"

text \<open>The loop over the choices of one question: every choice is rendered, and the
  last correct one gives \<open>correct_letter\<close> (\<open>cl\<close>) and \<open>correct_text\<close> (\<open>ct\<close>).\<close>

fun render_choices ::
  "(nat \<times> choice_row) list \<Rightarrow> rendered_choice list \<times> nat option \<times> string option
     \<Rightarrow> rendered_choice list \<times> nat option \<times> string option" where
  "render_choices [] acc = acc"
| "render_choices ((letter, ch) # rest) (rendered_choices, cl, ct) =
     render_choices rest
       (rendered_choices @ [\<lparr>rc_letter = letter, rc_text = c_choice_text ch\<rparr>],
        if c_is_correct ch then Some letter else cl,
        if c_is_correct ch then Some (c_choice_text ch) else ct)"

text \<open>The body of the loop over the candidates for one \<open>qid\<close>: the entry appended
  to \<open>picked\<close>. A question without choice rows gets empty choices.\<close>

definition render_question ::
  "(nat \<rightharpoonup> string option) \<Rightarrow> choice_row list \<Rightarrow> nat \<Rightarrow> select_error + picked_question" where
  "render_question question_text_map question_choices_df qid =
     (let q_text = truncate_text
                     (case question_text_map qid of None \<Rightarrow> Some [] | Some v \<Rightarrow> v);
          chs = filter (\<lambda>c. c_question_id c = qid) question_choices_df
      in if chs = []
         then Inr \<lparr>question_id = qid, question_text = q_text, choices = [],
                   correct_letter = None, correct_text = None\<rparr>
         else (case letters_for (length chs) of
                 Inl e \<Rightarrow> Inl e
               | Inr letters \<Rightarrow>
                   (case render_choices (zip letters chs) ([], None, None) of
                      (rendered_choices, cl, ct) \<Rightarrow>
                        Inr \<lparr>question_id = qid, question_text = q_text,
                             choices = rendered_choices,
                             correct_letter = cl, correct_text = ct\<rparr>)))"

text \<open>The loop \<open>for qid in candidates\<close> with its \<open>break\<close> at \<open>max_num\<close> entries.\<close>

fun pick_loop ::
  "(nat \<rightharpoonup> string option) \<Rightarrow> choice_row list \<Rightarrow> int \<Rightarrow> nat list \<Rightarrow> picked_question list
     \<Rightarrow> select_error + picked_question list" where
  "pick_loop question_text_map question_choices_df max_num [] picked = Inr picked"
| "pick_loop question_text_map question_choices_df max_num (qid # rest) picked =
     (if int (length picked) \<ge> max_num then Inr picked
      else (case render_question question_text_map question_choices_df qid of
              Inl e \<Rightarrow> Inl e
            | Inr p \<Rightarrow>
                pick_loop question_text_map question_choices_df max_num rest (picked @ [p])))"

text \<open>
  \<open>_select_three_questions_for_kc\<close> (the name without its leading underscore).
  \<open>shuffle\<close> is what \<open>random.shuffle\<close> does to the candidates in this call;
  \<open>kc\<close> is the parameter \<open>kc_name\<close>.
\<close>

definition select_three_questions_for_kc ::
  "(nat list \<Rightarrow> nat list) \<Rightarrow> string \<Rightarrow> (string \<rightharpoonup> nat list) \<Rightarrow> nat set
     \<Rightarrow> (nat \<rightharpoonup> string option) \<Rightarrow> choice_row list \<Rightarrow> int
     \<Rightarrow> select_error + picked_question list" where
  "select_three_questions_for_kc shuffle kc kc_to_questions_map test_question_ids
       question_text_map question_choices_df max_num =
     (let question_ids = (case kc_to_questions_map kc of None \<Rightarrow> [] | Some qs \<Rightarrow> qs)
      in if question_ids = [] then Inr []
         else (let available = filter (\<lambda>qid. qid \<notin> test_question_ids) question_ids;
                   candidates = shuffle available
               in pick_loop question_text_map question_choices_df max_num candidates []))"


text \<open>The choice rows of one question, the second choice correct.\<close>

definition example_choices :: "choice_row list" where
  "example_choices =
     [\<lparr>c_question_id = 4, c_choice_text = ''one half'', c_is_correct = False\<rparr>,
      \<lparr>c_question_id = 4, c_choice_text = ''one'', c_is_correct = True\<rparr>]"









chapter \<open>Properties\<close>

section \<open>Strings\<close>

lemma startswith_iff: "startswith p s \<longleftrightarrow> (\<exists>suf. s = p @ suf)"
  by (induction p s rule: startswith.induct) auto

lemma contains_iff: "contains sub s \<longleftrightarrow> (\<exists>pre suf. s = pre @ sub @ suf)"
proof (induction s)
  case Nil
  then show ?case by auto
next
  case (Cons c cs)
  show ?case
  proof
    assume "contains sub (c # cs)"
    then consider "startswith sub (c # cs)" | "contains sub cs" by auto
    then show "\<exists>pre suf. c # cs = pre @ sub @ suf"
    proof cases
      case 1
      then obtain suf where "c # cs = sub @ suf" by (auto simp: startswith_iff)
      then have "c # cs = [] @ sub @ suf" by simp
      then show ?thesis by blast
    next
      case 2
      then obtain pre suf where "cs = pre @ sub @ suf" using Cons.IH by auto
      then have "c # cs = (c # pre) @ sub @ suf" by simp
      then show ?thesis by blast
    qed
  next
    assume "\<exists>pre suf. c # cs = pre @ sub @ suf"
    then obtain pre suf where eq: "c # cs = pre @ sub @ suf" by blast
    show "contains sub (c # cs)"
    proof (cases pre)
      case Nil
      with eq have "startswith sub (c # cs)" by (auto simp: startswith_iff)
      then show ?thesis by simp
    next
      case (Cons p pre')
      with eq have "cs = pre' @ sub @ suf" by simp
      then have "contains sub cs" using Cons.IH by blast
      then show ?thesis by simp
    qed
  qed
qed



text \<open>
  After a prefix that ends in the first colon of the line, \<open>line.split(":", 1)\<close> has
  two parts and \<open>split_colon_1\<close> is the second: the index 1 of the three uses in
  \<open>parse_llm_response\<close> exists, so the parser has no error branch.
\<close>

lemma split_colon_1_prefix:
  assumes "CHR '':'' \<notin> set p" "startswith (p @ '':'') line"
  shows "split_colon_1 line = drop (Suc (length p)) line"
proof -
  from assms(2) obtain suf where l: "line = p @ CHR '':'' # suf"
    by (auto simp: startswith_iff)
  have "\<forall>x \<in> set p. x \<noteq> CHR '':''" using assms(1) by blast
  then have "dropWhile (\<lambda>c. c \<noteq> CHR '':'') (p @ CHR '':'' # suf) = CHR '':'' # suf"
    by (simp add: dropWhile_append3)
  then show ?thesis by (simp add: split_colon_1_def l)
qed

lemma split_colon_1_keys:
  "startswith ''Mastery Level:'' line \<Longrightarrow> split_colon_1 line = drop (length ''Mastery Level:'') line"
  "startswith ''Rationale:'' line \<Longrightarrow> split_colon_1 line = drop (length ''Rationale:'') line"
  "startswith ''Suggestions:'' line \<Longrightarrow> split_colon_1 line = drop (length ''Suggestions:'') line"
proof -
  show "startswith ''Mastery Level:'' line \<Longrightarrow>
        split_colon_1 line = drop (length ''Mastery Level:'') line"
    using split_colon_1_prefix [of "''Mastery Level''" line] by simp
  show "startswith ''Rationale:'' line \<Longrightarrow>
        split_colon_1 line = drop (length ''Rationale:'') line"
    using split_colon_1_prefix [of "''Rationale''" line] by simp
  show "startswith ''Suggestions:'' line \<Longrightarrow>
        split_colon_1 line = drop (length ''Suggestions:'') line"
    using split_colon_1_prefix [of "''Suggestions''" line] by simp
qed


section \<open>Retry loops\<close>

lemma execute_attempts_raise_from:
  "Suc a \<le> length ds \<Longrightarrow>
   execute_attempts (\<lambda>k. Raised (e k)) ds index (Suc a) tr =
     (tr @ retried_events a (drop a ds),
      Some \<lparr>res_index = index, res_result = None,
            res_error = Some (last_error_of (e (length ds)))\<rparr>)"
proof (induction "length ds - Suc a" arbitrary: a tr)
  case 0
  then have a: "Suc a = length ds" by simp
  then have d: "drop a ds = [ds ! a]"
    by (metis Cons_nth_drop_Suc drop_all lessI order_refl)
  show ?case
    by (subst execute_attempts.simps) (simp add: a [symmetric] d Let_def)
next
  case (Suc n)
  then have lt: "Suc a < length ds" by simp
  then have d: "drop a ds = ds ! a # drop (Suc a) ds"
    by (simp add: Cons_nth_drop_Suc)
  have n: "n = length ds - Suc (Suc a)" using Suc.hyps(2) by simp
  have ih: "execute_attempts (\<lambda>k. Raised (e k)) ds index (Suc (Suc a)) tr' =
     (tr' @ retried_events (Suc a) (drop (Suc a) ds),
      Some \<lparr>res_index = index, res_result = None,
            res_error = Some (last_error_of (e (length ds)))\<rparr>)" for tr'
    using Suc.hyps(1) [OF n] lt by simp
  show ?case
    using lt by (subst execute_attempts.simps) (simp add: d ih Let_def)
qed

text \<open>A single request whose call raises at every attempt, whatever the exception:
  one call, then one sleep and one call for each delay in order, then the error result.\<close>

lemma execute_attempts_all_raise:
  "execute_attempts (\<lambda>k. Raised (e k)) ds index 0 [] =
     (Call 0 # retried_events 0 ds,
      Some \<lparr>res_index = index, res_result = None,
            res_error = Some (last_error_of (e (length ds)))\<rparr>)"
proof (cases ds)
  case Nil
  then show ?thesis by (subst execute_attempts.simps) (simp add: Let_def)
next
  case (Cons d ds')
  then have "Suc 0 \<le> length ds" by simp
  from execute_attempts_raise_from [OF this, of e index "[Call 0]"]
  show ?thesis by (subst execute_attempts.simps) (simp add: Cons Let_def)
qed

lemma retry_attempts_limited_from:
  "a \<le> length ds \<Longrightarrow> (\<forall>k \<le> length ds. has_rate_limit_error (rs k)) \<Longrightarrow>
   retry_attempts oi (\<lambda>m k. Batch_returned (rs k)) reqs ds a res tr =
     (tr @ Call a # retried_events a (drop a ds), Inr (rs (length ds)))"
proof (induction "length ds - a" arbitrary: a tr res)
  case 0
  then have a: "a = length ds" by simp
  show ?case using 0(3)
    by (subst retry_attempts.simps) (simp add: a Let_def)
next
  case (Suc n)
  then have lt: "a < length ds" by simp
  then have d: "drop a ds = ds ! a # drop (Suc a) ds"
    by (simp add: Cons_nth_drop_Suc)
  have n: "n = length ds - Suc a" using Suc.hyps(2) by simp
  have ih: "retry_attempts oi (\<lambda>m k. Batch_returned (rs k)) reqs ds (Suc a) res' tr' =
     (tr' @ Call (Suc a) # retried_events (Suc a) (drop (Suc a) ds), Inr (rs (length ds)))"
    for tr' res'
    using Suc.hyps(1) [OF n _ Suc.prems(2)] lt by simp
  have h: "has_rate_limit_error (rs a)" using Suc.prems(2) lt by simp
  show ?case
    using lt h by (subst retry_attempts.simps) (simp add: d ih Let_def)
qed

text \<open>A batch whose returned results hold a rate-limit error (by the three-substring
  test) at every attempt: retried once per delay, in order, and the last results are
  returned with the error in them.\<close>

lemma concurrent_retry_results_limited:
  "(\<forall>k \<le> length ds. has_rate_limit_error (rs k)) \<Longrightarrow>
   concurrent_user_sys_call_with_retry oi (\<lambda>m k. Batch_returned (rs k)) reqs ds =
     (Call 0 # retried_events 0 ds, Inr (rs (length ds)))"
  unfolding concurrent_user_sys_call_with_retry_def
  using retry_attempts_limited_from [of 0 ds rs oi reqs None "[]"] by simp

lemma retry_attempts_not_retried:
  assumes "a \<le> length ds" "\<not> retried oi (call (choose_module reqs) a)"
  shows "retry_attempts oi call reqs ds a res tr
           = (tr @ [Call a], ended_by (call (choose_module reqs) a))"
  using assms
  by (subst retry_attempts.simps)
     (auto simp: Let_def retried_def ended_by_def split: batch_outcome.splits)

lemma retry_attempts_retried:
  assumes "a < length ds" "retried oi (call (choose_module reqs) a)"
  shows "\<exists>res'. retry_attempts oi call reqs ds a res tr
           = retry_attempts oi call reqs ds (Suc a) res' (tr @ [Call a, Sleep (ds ! a)])"
  using assms
  by (subst retry_attempts.simps)
     (auto simp: Let_def retried_def split: batch_outcome.splits)

lemma retry_attempts_until:
  "a \<le> k \<Longrightarrow> k \<le> length ds \<Longrightarrow>
   (\<forall>j. a \<le> j \<and> j < k \<longrightarrow> retried oi (call (choose_module reqs) j)) \<Longrightarrow>
   \<not> retried oi (call (choose_module reqs) k) \<Longrightarrow>
   retry_attempts oi call reqs ds a res tr
     = (tr @ Call a # retried_events a (take (k - a) (drop a ds)),
        ended_by (call (choose_module reqs) k))"
proof (induction "k - a" arbitrary: a res tr)
  case 0
  then have "a = k" by simp
  with 0 show ?case by (simp add: retry_attempts_not_retried)
next
  case (Suc n)
  then have lt: "a < k" by simp
  then have al: "a < length ds" using Suc.prems(2) by simp
  have r: "retried oi (call (choose_module reqs) a)" using Suc.prems(3) lt by simp
  obtain res' where s: "retry_attempts oi call reqs ds a res tr
           = retry_attempts oi call reqs ds (Suc a) res' (tr @ [Call a, Sleep (ds ! a)])"
    using retry_attempts_retried [where a = a and ds = ds and oi = oi and call = call
        and reqs = reqs and res = res and tr = tr] al r by blast
  have n: "n = k - Suc a" using Suc.hyps(2) by simp
  have ih: "retry_attempts oi call reqs ds (Suc a) res' (tr @ [Call a, Sleep (ds ! a)])
     = ((tr @ [Call a, Sleep (ds ! a)])
          @ Call (Suc a) # retried_events (Suc a) (take (k - Suc a) (drop (Suc a) ds)),
        ended_by (call (choose_module reqs) k))"
    using Suc.hyps(1) [OF n _ Suc.prems(2) _ Suc.prems(4)] lt Suc.prems(3) by simp
  have d: "take (k - a) (drop a ds) = ds ! a # take (k - Suc a) (drop (Suc a) ds)"
    using lt al by (metis Cons_nth_drop_Suc Suc_diff_Suc take_Suc_Cons)
  show ?case unfolding s ih d by simp
qed

lemma concurrent_retry_until:
  assumes "k \<le> length ds"
    "\<forall>j < k. retried oi (call (choose_module reqs) j)"
    "\<not> retried oi (call (choose_module reqs) k)"
  shows "concurrent_user_sys_call_with_retry oi call reqs ds
           = (Call 0 # retried_events 0 (take k ds), ended_by (call (choose_module reqs) k))"
  unfolding concurrent_user_sys_call_with_retry_def
  using retry_attempts_until [of 0 k ds oi call reqs None "[]"] assms by simp

lemma not_rate_limit_not_retried:
  "\<not> rate_limit_text (lower (exc_str e)) \<Longrightarrow> \<not> retried oi (Batch_raised e)"
  "\<not> has_rate_limit_error rs \<Longrightarrow> \<not> retried oi (Batch_returned rs)"
  by (simp_all add: retried_def rate_limit_text_def)

lemma execute_attempts_success_from:
  "Suc a \<le> k \<Longrightarrow> k \<le> length ds \<Longrightarrow>
   (\<forall>j. Suc a \<le> j \<and> j < k \<longrightarrow> (\<exists>e. call j = Raised e)) \<Longrightarrow>
   call k = Returned reply \<Longrightarrow>
   execute_attempts call ds index (Suc a) tr =
     (tr @ retried_events a (take (k - a) (drop a ds)),
      Some \<lparr>res_index = index, res_result = Some reply, res_error = None\<rparr>)"
proof (induction "k - Suc a" arbitrary: a tr)
  case 0
  then have a: "Suc a = k" by simp
  then have al: "a < length ds" using 0(3) by simp
  have ka: "k - a = Suc 0" using a by simp
  have d: "take (k - a) (drop a ds) = [ds ! a]"
    unfolding ka using al by (simp add: Cons_nth_drop_Suc [symmetric])
  have c: "call (Suc a) = Returned reply" using 0(5) a by simp
  show ?case
    unfolding d using al
    by (subst execute_attempts.simps) (simp add: c Let_def)
next
  case (Suc n)
  then have lt: "Suc a < k" by simp
  then have al: "Suc a < length ds" using Suc.prems(2) by simp
  obtain e where e: "call (Suc a) = Raised e" using Suc.prems(3) lt by blast
  have n: "n = k - Suc (Suc a)" using Suc.hyps(2) by simp
  have ih: "execute_attempts call ds index (Suc (Suc a)) tr' =
     (tr' @ retried_events (Suc a) (take (k - Suc a) (drop (Suc a) ds)),
      Some \<lparr>res_index = index, res_result = Some reply, res_error = None\<rparr>)" for tr'
    using Suc.hyps(1) [OF n _ Suc.prems(2) _ Suc.prems(4)] lt Suc.prems(3) by simp
  have d: "take (k - a) (drop a ds) = ds ! a # take (k - Suc a) (drop (Suc a) ds)"
    using lt al by (metis Cons_nth_drop_Suc Suc_diff_Suc Suc_lessD take_Suc_Cons)
  show ?case
    using al by (subst execute_attempts.simps) (simp add: e d ih Let_def)
qed

lemma execute_attempts_success:
  assumes "k \<le> length ds" "\<forall>j < k. \<exists>e. call j = Raised e" "call k = Returned reply"
  shows "execute_attempts call ds index 0 [] =
     (Call 0 # retried_events 0 (take k ds),
      Some \<lparr>res_index = index, res_result = Some reply, res_error = None\<rparr>)"
proof (cases k)
  case 0
  with assms show ?thesis by (subst execute_attempts.simps) (simp add: Let_def)
next
  case (Suc k')
  then obtain e where e: "call 0 = Raised e" using assms(2) by auto
  have ne: "0 \<noteq> length ds" using assms(1) Suc by auto
  have s: "execute_attempts call ds index (Suc 0) [Call 0] =
     ([Call 0] @ retried_events 0 (take (k - 0) (drop 0 ds)),
      Some \<lparr>res_index = index, res_result = Some reply, res_error = None\<rparr>)"
    using execute_attempts_success_from [of 0 k ds call reply index "[Call 0]"] assms Suc
    by simp
  show ?thesis
    using ne by (subst execute_attempts.simps) (simp add: e s Let_def)
qed


lemma retry_attempts_extends:
  "\<exists>tr' r. retry_attempts oi call reqs ds a res tr = (tr @ tr', r)"
proof (induction "length ds + 1 - a" arbitrary: a res tr)
  case 0
  then show ?case by (subst retry_attempts.simps) (simp add: Let_def)
next
  case (Suc n)
  have ih: "\<exists>tr' r. retry_attempts oi call reqs ds (Suc a) res' tr0 = (tr0 @ tr', r)"
    for res' tr0
    using Suc.hyps(1) [of "Suc a"] Suc.hyps(2) by simp
  show ?case
  proof (cases "a < length ds \<and> retried oi (call (choose_module reqs) a)")
    case True
    then obtain res' where s: "retry_attempts oi call reqs ds a res tr
           = retry_attempts oi call reqs ds (Suc a) res' (tr @ [Call a, Sleep (ds ! a)])"
      using retry_attempts_retried [where a = a and ds = ds and oi = oi and call = call
        and reqs = reqs and res = res and tr = tr] by blast
    obtain tr' r where "retry_attempts oi call reqs ds (Suc a) res' (tr @ [Call a, Sleep (ds ! a)])
        = ((tr @ [Call a, Sleep (ds ! a)]) @ tr', r)"
      using ih by blast
    then show ?thesis unfolding s by simp
  next
    case False
    have "a \<le> length ds" using Suc.hyps(2) by simp
    then show ?thesis using False
      by (subst retry_attempts.simps)
         (auto simp: Let_def retried_def split: batch_outcome.splits)
  qed
qed

lemma retry_attempts_reaches:
  "a \<le> k \<Longrightarrow> k \<le> length ds \<Longrightarrow>
   (\<forall>j. a \<le> j \<and> j < k \<longrightarrow> retried oi (call (choose_module reqs) j)) \<Longrightarrow>
   \<exists>tr' r. retry_attempts oi call reqs ds a res tr
     = (tr @ Call a # retried_events a (take (k - a) (drop a ds)) @ tr', r)"
proof (induction "k - a" arbitrary: a res tr)
  case 0
  then have a: "a = k" by simp
  have "\<exists>tr' r. retry_attempts oi call reqs ds k res tr = (tr @ Call k # tr', r)"
  proof (cases "k < length ds \<and> retried oi (call (choose_module reqs) k)")
    case True
    then obtain res' where s: "retry_attempts oi call reqs ds k res tr
           = retry_attempts oi call reqs ds (Suc k) res' (tr @ [Call k, Sleep (ds ! k)])"
      using retry_attempts_retried [where a = k and ds = ds and oi = oi and call = call
        and reqs = reqs and res = res and tr = tr] by blast
    obtain tr' r where "retry_attempts oi call reqs ds (Suc k) res' (tr @ [Call k, Sleep (ds ! k)])
        = ((tr @ [Call k, Sleep (ds ! k)]) @ tr', r)"
      using retry_attempts_extends by blast
    then show ?thesis unfolding s by simp
  next
    case False
    then show ?thesis using 0(3)
      by (subst retry_attempts.simps)
         (auto simp: Let_def retried_def split: batch_outcome.splits)
  qed
  then show ?case using a by simp
next
  case (Suc n)
  then have lt: "a < k" by simp
  then have al: "a < length ds" using Suc.prems(2) by simp
  have r: "retried oi (call (choose_module reqs) a)" using Suc.prems(3) lt by simp
  obtain res' where s: "retry_attempts oi call reqs ds a res tr
           = retry_attempts oi call reqs ds (Suc a) res' (tr @ [Call a, Sleep (ds ! a)])"
    using retry_attempts_retried [where a = a and ds = ds and oi = oi and call = call
        and reqs = reqs and res = res and tr = tr] al r by blast
  have n: "n = k - Suc a" using Suc.hyps(2) by simp
  obtain tr' r where ih: "retry_attempts oi call reqs ds (Suc a) res' (tr @ [Call a, Sleep (ds ! a)])
     = ((tr @ [Call a, Sleep (ds ! a)])
          @ Call (Suc a) # retried_events (Suc a) (take (k - Suc a) (drop (Suc a) ds)) @ tr', r)"
    using Suc.hyps(1) [OF n _ Suc.prems(2), of res' "tr @ [Call a, Sleep (ds ! a)]"]
      lt Suc.prems(3) by auto
  have d: "take (k - a) (drop a ds) = ds ! a # take (k - Suc a) (drop (Suc a) ds)"
    using lt al by (metis Cons_nth_drop_Suc Suc_diff_Suc take_Suc_Cons)
  show ?case unfolding s ih d by simp
qed

lemma concurrent_retry_reaches:
  assumes "k \<le> length ds" "\<forall>j < k. retried oi (call (choose_module reqs) j)"
  shows "\<exists>tr' r. concurrent_user_sys_call_with_retry oi call reqs ds
           = (Call 0 # retried_events 0 (take k ds) @ tr', r)"
  unfolding concurrent_user_sys_call_with_retry_def
  using retry_attempts_reaches [of 0 k ds oi call reqs None "[]"] assms by simp

lemma has_rate_limit_error_member:
  "r \<in> set rs \<Longrightarrow> b_error r = Some err \<Longrightarrow> err \<noteq> [] \<Longrightarrow> rate_limit_text (lower err) \<Longrightarrow>
   has_rate_limit_error rs"
  by (induction rs) (auto split: option.splits)

text \<open>
  C3. The claim holds in \<open>execute_single_request\<close> (\<open>execute_attempts_all_raise\<close>) and for
  errors inside returned results (\<open>concurrent_retry_results_limited\<close>). It fails in the
  \<open>except (RateLimitError, APIError)\<close> branch of \<open>concurrent_user_sys_call_with_retry\<close>,
  which tests only \<open>'429'\<close> and \<open>'rate limit'\<close>: an \<open>APIError\<close> whose text is
  \<open>Too Many Requests\<close> is in the rate-limit class of the test twenty lines above, and is
  raised again after the first call, with no retry and no wait. The same text as the
  error of a returned result is retried three times, after 5, 10 and 30 seconds.
\<close>

theorem concurrent_retry_too_many_requests_not_retried:
  "rate_limit_text (lower (exc_str too_many_requests))
   \<and> concurrent_user_sys_call_with_retry True (batch_always_raises too_many_requests)
        [Some ''gpt-4''] [5, 10, 30]
      = ([Call 0], Inl (Reraised too_many_requests))
   \<and> concurrent_user_sys_call_with_retry True
        (batch_always_returns [\<lparr>b_result = None, b_error = Some ''Too Many Requests''\<rparr>])
        [Some ''gpt-4''] [5, 10, 30]
      = ([Call 0, Sleep 5, Call 1, Sleep 10, Call 2, Sleep 30, Call 3],
         Inr [\<lparr>b_result = None, b_error = Some ''Too Many Requests''\<rparr>])"
proof -
  have "rate_limit_text (lower (exc_str too_many_requests))"
    by (simp add: rate_limit_text_def lower_def too_many_requests_def)
  moreover have "concurrent_user_sys_call_with_retry True
      (batch_always_raises too_many_requests) [Some ''gpt-4''] [5, 10, 30]
      = ([Call 0], Inl (Reraised too_many_requests))"
    unfolding concurrent_user_sys_call_with_retry_def
    by (subst retry_attempts.simps)
       (simp add: batch_always_raises_def caught_as_api_error_def too_many_requests_def
          lower_def)
  moreover have "concurrent_user_sys_call_with_retry True
        (batch_always_returns [\<lparr>b_result = None, b_error = Some ''Too Many Requests''\<rparr>])
        [Some ''gpt-4''] [5, 10, 30]
      = ([Call 0, Sleep 5, Call 1, Sleep 10, Call 2, Sleep 30, Call 3],
         Inr [\<lparr>b_result = None, b_error = Some ''Too Many Requests''\<rparr>])"
  proof -
    have h: "\<forall>k \<le> length [5, 10, 30 :: int].
               has_rate_limit_error [\<lparr>b_result = None, b_error = Some ''Too Many Requests''\<rparr>]"
      by (simp add: rate_limit_text_def lower_def)
    show ?thesis
      using concurrent_retry_results_limited [of "[5, 10, 30]"
              "\<lambda>k. [\<lparr>b_result = None, b_error = Some ''Too Many Requests''\<rparr>]"
              True "[Some ''gpt-4'']", OF h]
      by (simp add: batch_always_returns_def [abs_def] numeral_2_eq_2 numeral_3_eq_3)
  qed
  ultimately show ?thesis by simp
qed

text \<open>
  C4, as stated, fails twice. In \<open>execute_single_request\<close> the \<open>except Exception\<close>
  clause does not look at the error, so a \<open>ValueError\<close> with the text
  \<open>invalid payload\<close> at every attempt is retried three times, after 5, 10 and 30 seconds,
  before it becomes the error result. In \<open>concurrent_user_sys_call_with_retry\<close> the whole
  request list is sent again when one result holds a rate-limit error, so a request whose
  result holds the error \<open>invalid payload\<close> is sent four times when its neighbour is
  rate-limited each time.
\<close>

theorem non_rate_limit_errors_are_retried:
  "\<not> rate_limit_text (lower (exc_str invalid_payload))
   \<and> execute_single_request (always_raises invalid_payload) 7
      = ([Call 0, Sleep 5, Call 1, Sleep 10, Call 2, Sleep 30, Call 3],
         Some \<lparr>res_index = 7, res_result = None, res_error = Some ''invalid payload''\<rparr>)
   \<and> \<not> rate_limit_text (lower ''invalid payload'')
   \<and> concurrent_user_sys_call_with_retry True (batch_always_returns mixed_results)
        [Some ''gpt-4'', Some ''gpt-4''] [5, 10, 30]
      = ([Call 0, Sleep 5, Call 1, Sleep 10, Call 2, Sleep 30, Call 3], Inr mixed_results)"
proof -
  have 1: "\<not> rate_limit_text (lower (exc_str invalid_payload))"
    by (simp add: rate_limit_text_def lower_def invalid_payload_def)
  have 2: "execute_single_request (always_raises invalid_payload) 7
      = ([Call 0, Sleep 5, Call 1, Sleep 10, Call 2, Sleep 30, Call 3],
         Some \<lparr>res_index = 7, res_result = None, res_error = Some ''invalid payload''\<rparr>)"
    using execute_attempts_all_raise [of "\<lambda>k. invalid_payload" "[5, 10, 30]" 7]
    by (simp add: execute_single_request_def always_raises_def [abs_def] last_error_of_def
          invalid_payload_def)
  have 3: "\<not> rate_limit_text (lower ''invalid payload'')"
    by (simp add: rate_limit_text_def lower_def)
  have h: "\<forall>k \<le> length [5, 10, 30 :: int]. has_rate_limit_error mixed_results"
    by (simp add: mixed_results_def rate_limit_text_def lower_def)
  have 4: "concurrent_user_sys_call_with_retry True (batch_always_returns mixed_results)
        [Some ''gpt-4'', Some ''gpt-4''] [5, 10, 30]
      = ([Call 0, Sleep 5, Call 1, Sleep 10, Call 2, Sleep 30, Call 3], Inr mixed_results)"
    using concurrent_retry_results_limited [of "[5, 10, 30]" "\<lambda>k. mixed_results"
              True "[Some ''gpt-4'', Some ''gpt-4'']", OF h]
    by (simp add: batch_always_returns_def [abs_def] numeral_2_eq_2 numeral_3_eq_3)
  show ?thesis using 1 2 3 4 by (intro conjI)
qed

text \<open>
  C4, amended. Let the attempts before attempt \<open>k\<close> of
  \<open>concurrent_user_sys_call_with_retry\<close> all be retried (\<open>k\<close> at most the number of
  delays). Then attempt \<open>k\<close> is made, after the first \<open>k\<close> delays in order, and

  \<^item> if it raises an exception whose text has none of the three substrings, the
    exception is raised again at once: no further call, no further sleep;
  \<^item> if it returns results of which none holds a rate-limit error, they are returned at
    once, their other errors in them;
  \<^item> results of which one holds a rate-limit error are retried, whatever errors the
    other results hold: the requests of those are sent again with the rest.

  In \<open>execute_single_request\<close> every exception is retried, whatever its text: a call that
  raises at the first \<open>n\<close> attempts and then returns gives the success result after \<open>n\<close>
  retries, and a call that raises at all four attempts gives the error result, with the
  text of the last exception, only after the three retries.
\<close>

theorem non_rate_limit_error_handling:
  assumes "k \<le> length ds"
    and "\<forall>j < k. retried oi (call (choose_module reqs) j)"
  shows "(\<exists>tr' r. concurrent_user_sys_call_with_retry oi call reqs ds
             = (Call 0 # retried_events 0 (take k ds) @ tr', r))
   \<and> (call (choose_module reqs) k = Batch_raised e \<and> \<not> rate_limit_text (lower (exc_str e))
      \<longrightarrow> concurrent_user_sys_call_with_retry oi call reqs ds
            = (Call 0 # retried_events 0 (take k ds), Inl (Reraised e)))
   \<and> (call (choose_module reqs) k = Batch_returned rs \<and> \<not> has_rate_limit_error rs
      \<longrightarrow> concurrent_user_sys_call_with_retry oi call reqs ds
            = (Call 0 # retried_events 0 (take k ds), Inr rs))
   \<and> (r \<in> set rs' \<and> b_error r = Some err \<and> err \<noteq> [] \<and> rate_limit_text (lower err)
      \<longrightarrow> retried oi (Batch_returned rs'))
   \<and> (n \<le> 3 \<and> (\<forall>j < n. \<exists>x. call1 j = Raised x) \<and> call1 n = Returned reply
      \<longrightarrow> execute_single_request call1 index
            = (Call 0 # retried_events 0 (take n [5, 10, 30]),
               Some \<lparr>res_index = index, res_result = Some reply, res_error = None\<rparr>))
   \<and> execute_single_request (\<lambda>j. Raised (e' j)) index
      = ([Call 0, Sleep 5, Call 1, Sleep 10, Call 2, Sleep 30, Call 3],
         Some \<lparr>res_index = index, res_result = None,
               res_error = Some (last_error_of (e' 3))\<rparr>)"
proof -
  have 1: "\<exists>tr' r. concurrent_user_sys_call_with_retry oi call reqs ds
             = (Call 0 # retried_events 0 (take k ds) @ tr', r)"
    using concurrent_retry_reaches assms by blast
  have 2: "concurrent_user_sys_call_with_retry oi call reqs ds
            = (Call 0 # retried_events 0 (take k ds), Inl (Reraised e))"
    if "call (choose_module reqs) k = Batch_raised e" "\<not> rate_limit_text (lower (exc_str e))"
    using concurrent_retry_until [where k = k and ds = ds and oi = oi and call = call
        and reqs = reqs] assms that not_rate_limit_not_retried(1) [of e oi]
    by (simp add: ended_by_def)
  have 3: "concurrent_user_sys_call_with_retry oi call reqs ds
            = (Call 0 # retried_events 0 (take k ds), Inr rs)"
    if "call (choose_module reqs) k = Batch_returned rs" "\<not> has_rate_limit_error rs"
    using concurrent_retry_until [where k = k and ds = ds and oi = oi and call = call
        and reqs = reqs] assms that not_rate_limit_not_retried(2) [of rs oi]
    by (simp add: ended_by_def)
  have 4: "retried oi (Batch_returned rs')"
    if "r \<in> set rs'" "b_error r = Some err" "err \<noteq> []" "rate_limit_text (lower err)"
    using has_rate_limit_error_member [OF that] by (simp add: retried_def)
  have 5: "execute_single_request call1 index
            = (Call 0 # retried_events 0 (take n [5, 10, 30]),
               Some \<lparr>res_index = index, res_result = Some reply, res_error = None\<rparr>)"
    if "n \<le> 3" "\<forall>j < n. \<exists>x. call1 j = Raised x" "call1 n = Returned reply"
    unfolding execute_single_request_def
    using execute_attempts_success [of n "[5, 10, 30]" call1 reply index] that by simp
  have 6: "execute_single_request (\<lambda>j. Raised (e' j)) index
      = ([Call 0, Sleep 5, Call 1, Sleep 10, Call 2, Sleep 30, Call 3],
         Some \<lparr>res_index = index, res_result = None,
               res_error = Some (last_error_of (e' 3))\<rparr>)"
    using execute_attempts_all_raise [of e' "[5, 10, 30]" index]
    by (simp add: execute_single_request_def numeral_3_eq_3)
  show ?thesis using 1 2 3 4 5 6 by blast
qed

theorem non_rate_limit_error_handling_witness:
  "concurrent_user_sys_call_with_retry True
      (batch_outcomes [Batch_returned mixed_results, Batch_raised rate_limited]
         (Batch_raised invalid_payload))
      [Some ''gpt-4'', Some ''gpt-4''] [5, 10, 30]
     = ([Call 0, Sleep 5, Call 1, Sleep 10, Call 2], Inl (Reraised invalid_payload))
   \<and> concurrent_user_sys_call_with_retry True
      (batch_outcomes [Batch_returned mixed_results]
         (Batch_returned [\<lparr>b_result = None, b_error = Some ''invalid payload''\<rparr>]))
      [Some ''gpt-4'', Some ''gpt-4''] [5, 10, 30]
     = ([Call 0, Sleep 5, Call 1],
        Inr [\<lparr>b_result = None, b_error = Some ''invalid payload''\<rparr>])
   \<and> execute_single_request
        (outcome_at [Raised invalid_payload, Raised invalid_payload] (Returned ''ok'')) 7
     = ([Call 0, Sleep 5, Call 1, Sleep 10, Call 2],
        Some \<lparr>res_index = 7, res_result = Some ''ok'', res_error = None\<rparr>)"
proof -
  define c1 where "c1 = batch_outcomes [Batch_returned mixed_results, Batch_raised rate_limited]
         (Batch_raised invalid_payload)"
  define c2 where "c2 = batch_outcomes [Batch_returned mixed_results]
         (Batch_returned [\<lparr>b_result = None, b_error = Some ''invalid payload''\<rparr>])"
  define c3 where "c3 = outcome_at [Raised invalid_payload, Raised invalid_payload]
         (Returned ''ok'')"
  define reqs where "reqs = [Some ''gpt-4'', Some ''gpt-4'']"
  have m: "retried True (Batch_returned mixed_results)"
    by (simp add: retried_def mixed_results_def rate_limit_text_def lower_def)
  have l: "retried True (Batch_raised rate_limited)"
    by (simp add: retried_def rate_limited_def caught_as_api_error_def lower_def)
  have i: "\<not> rate_limit_text (lower (exc_str invalid_payload))"
    by (simp add: rate_limit_text_def lower_def invalid_payload_def)
  have i': "\<not> has_rate_limit_error [\<lparr>b_result = None, b_error = Some ''invalid payload''\<rparr>]"
    by (simp add: rate_limit_text_def lower_def)
  have h1: "(2::nat) \<le> length [5, 10, 30 :: int]"
    by simp
  have h1': "\<forall>j < 2. retried True (c1 (choose_module reqs) j)"
    using m l by (simp add: c1_def batch_outcomes_def All_less_Suc numeral_2_eq_2)
  have h1'': "c1 (choose_module reqs) 2 = Batch_raised invalid_payload"
    by (simp add: c1_def batch_outcomes_def numeral_2_eq_2)
  have h2: "(1::nat) \<le> length [5, 10, 30 :: int]"
    by simp
  have h2': "\<forall>j < 1. retried True (c2 (choose_module reqs) j)"
    using m by (simp add: c2_def batch_outcomes_def)
  have h2'': "c2 (choose_module reqs) 1
                = Batch_returned [\<lparr>b_result = None, b_error = Some ''invalid payload''\<rparr>]"
    by (simp add: c2_def batch_outcomes_def)
  have h3: "(2::nat) \<le> 3 \<and> (\<forall>j < 2. \<exists>x. c3 j = Raised x) \<and> c3 2 = Returned ''ok''"
    by (simp add: c3_def All_less_Suc numeral_2_eq_2)
  have h0: "(0::nat) \<le> length ([] :: int list)"
    by simp
  have h0': "\<forall>j < 0. retried True (c1 (choose_module reqs) j)"
    by simp
  have a: "concurrent_user_sys_call_with_retry True c1 reqs [5, 10, 30]
     = (Call 0 # retried_events 0 (take 2 [5, 10, 30]), Inl (Reraised invalid_payload))"
    by (rule non_rate_limit_error_handling [where k = 2 and ds = "[5, 10, 30]" and oi = True
        and call = c1 and reqs = reqs and e = invalid_payload, OF h1 h1',
        THEN conjunct2, THEN conjunct1, THEN mp, OF conjI, OF h1'' i])
  have b: "concurrent_user_sys_call_with_retry True c2 reqs [5, 10, 30]
     = (Call 0 # retried_events 0 (take 1 [5, 10, 30]),
        Inr [\<lparr>b_result = None, b_error = Some ''invalid payload''\<rparr>])"
    by (rule non_rate_limit_error_handling [where k = 1 and ds = "[5, 10, 30]" and oi = True
        and call = c2 and reqs = reqs
        and rs = "[\<lparr>b_result = None, b_error = Some ''invalid payload''\<rparr>]",
        OF h2 h2', THEN conjunct2, THEN conjunct2, THEN conjunct1, THEN mp,
        OF conjI, OF h2'' i'])
  have c: "execute_single_request c3 7
     = (Call 0 # retried_events 0 (take 2 [5, 10, 30]),
        Some \<lparr>res_index = 7, res_result = Some ''ok'', res_error = None\<rparr>)"
    by (rule non_rate_limit_error_handling [where k = 0 and ds = "[]" and oi = True
        and call = c1 and reqs = reqs and n = 2 and ?call1.0 = c3 and reply = "''ok''"
        and index = 7, OF h0 h0', THEN conjunct2, THEN conjunct2, THEN conjunct2,
        THEN conjunct2, THEN conjunct1, THEN mp, OF h3])
  have t2: "retried_events 0 (take 2 [5, 10, 30]) = [Sleep 5, Call 1, Sleep 10, Call 2]"
    by (simp add: numeral_2_eq_2)
  have t1: "retried_events 0 (take 1 [5, 10, 30]) = [Sleep 5, Call 1]"
    by simp
  show ?thesis
    using a b c unfolding t1 t2 c1_def c2_def c3_def reqs_def by (intro conjI)
qed


section \<open>Model routing\<close>

text \<open>
  C10. \<open>get_llm_module\<close> is a total function of the model name with no error branch. It
  looks for the substrings in the lower-cased name, \<open>qwen\<close> first, then \<open>doubao\<close>, then
  \<open>gpt\<close> (the \<open>mid_journey\<close> module); every other name, the empty one included, gets the
  \<open>doubao\<close> module. Two names that differ only in case get the same module.
\<close>

theorem get_llm_module_routing:
  "get_llm_module name =
     (if (\<exists>pre suf. lower name = pre @ ''qwen'' @ suf) then Qwen
      else if (\<exists>pre suf. lower name = pre @ ''doubao'' @ suf) then Doubao
      else if (\<exists>pre suf. lower name = pre @ ''gpt'' @ suf) then Mid_journey
      else Doubao)
   \<and> get_llm_module [] = Doubao
   \<and> (lower name = lower name' \<longrightarrow> get_llm_module name = get_llm_module name')"
  by (simp add: get_llm_module_def contains_iff Let_def lower_def)

theorem get_llm_module_routing_witness:
  "get_llm_module ''Qwen-Doubao-GPT'' = Qwen
   \<and> get_llm_module ''DOUBAO-gpt'' = Doubao
   \<and> get_llm_module ''GPT-4'' = Mid_journey
   \<and> get_llm_module ''gpt-4'' = Mid_journey
   \<and> get_llm_module ''llama-3'' = Doubao"
proof -
  have l: "lower ''GPT-4'' = lower ''gpt-4''" by (simp add: lower_def)
  have "get_llm_module ''GPT-4'' = get_llm_module ''gpt-4''"
    using get_llm_module_routing [of "''GPT-4''" "''gpt-4''"] l by blast
  moreover have "get_llm_module ''gpt-4'' = Mid_journey"
    by (simp add: get_llm_module_def lower_def)
  moreover have "get_llm_module ''Qwen-Doubao-GPT'' = Qwen"
    by (simp add: get_llm_module_def lower_def)
  moreover have "get_llm_module ''DOUBAO-gpt'' = Doubao"
    by (simp add: get_llm_module_def lower_def)
  moreover have "get_llm_module ''llama-3'' = Doubao"
    by (simp add: get_llm_module_def lower_def)
  ultimately show ?thesis by simp
qed


section \<open>The pending set\<close>












section \<open>Buffering and flushing\<close>

lemma save_results_batch_ok:
  "disk (to_csv_calls st) \<Longrightarrow> (first \<longrightarrow> results_file st = Missing) \<Longrightarrow> batch \<noteq> [] \<Longrightarrow>
   save_results_batch disk batch first st =
     st\<lparr>results_file := append_rows (results_file st) batch,
        to_csv_calls := to_csv_calls st + 1,
        printed := printed st @ [Print_saved (length batch)]\<rparr>"
  by (cases "results_file st") (auto simp: save_results_batch_def)

lemma save_results_batch_failed:
  "\<not> disk (to_csv_calls st) \<Longrightarrow> batch \<noteq> [] \<Longrightarrow>
   save_results_batch disk batch first st =
     st\<lparr>to_csv_calls := to_csv_calls st + 1, printed := printed st @ [Print_save_failed]\<rparr>"
  by (simp add: save_results_batch_def)

lemma store_rows_append:
  "f \<noteq> Unreadable \<Longrightarrow> store_rows (append_rows f batch) = store_rows f @ batch"
  by (cases f) simp_all

lemma append_rows_readable:
  "f \<noteq> Unreadable \<Longrightarrow> append_rows f batch \<noteq> Unreadable \<and> append_rows f batch \<noteq> Missing"
  by (cases f) simp_all

lemma buffer_outcome_below:
  "Suc (length (batch_results st)) < B \<Longrightarrow>
   buffer_outcome disk B st r = st\<lparr>batch_results := batch_results st @ [r]\<rparr>"
  by (simp add: buffer_outcome_def Let_def)

lemma buffer_outcome_flush:
  assumes "B \<le> Suc (length (batch_results st))" "disk (to_csv_calls st)"
    "is_first_batch st \<longrightarrow> results_file st = Missing"
  shows "buffer_outcome disk B st r =
     st\<lparr>results_file := append_rows (results_file st) (batch_results st @ [r]),
        to_csv_calls := to_csv_calls st + 1,
        printed := printed st @ [Print_saved (Suc (length (batch_results st)))],
        total_saved := total_saved st + Suc (length (batch_results st)),
        batch_results := [],
        is_first_batch := False\<rparr>"
  using assms
  by (simp add: buffer_outcome_def Let_def save_results_batch_ok)

lemma buffer_outcome_flush_failed:
  assumes "B \<le> Suc (length (batch_results st))" "\<not> disk (to_csv_calls st)"
  shows "buffer_outcome disk B st r =
     st\<lparr>to_csv_calls := to_csv_calls st + 1,
        printed := printed st @ [Print_save_failed],
        total_saved := total_saved st + Suc (length (batch_results st)),
        batch_results := [],
        is_first_batch := False\<rparr>"
  using assms
  by (simp add: buffer_outcome_def Let_def save_results_batch_failed)

lemma flush_remaining_ok:
  assumes "batch_results st \<noteq> []" "disk (to_csv_calls st)"
    "is_first_batch st \<longrightarrow> results_file st = Missing"
  shows "flush_remaining disk st =
     st\<lparr>results_file := append_rows (results_file st) (batch_results st),
        to_csv_calls := to_csv_calls st + 1,
        printed := printed st @ [Print_saved (length (batch_results st))],
        total_saved := total_saved st + length (batch_results st),
        batch_results := []\<rparr>"
  using assms
  by (simp add: flush_remaining_def Let_def save_results_batch_ok)

lemma flush_remaining_failed:
  assumes "batch_results st \<noteq> []" "\<not> disk (to_csv_calls st)"
  shows "flush_remaining disk st =
     st\<lparr>to_csv_calls := to_csv_calls st + 1,
        printed := printed st @ [Print_save_failed],
        total_saved := total_saved st + length (batch_results st),
        batch_results := []\<rparr>"
  using assms
  by (simp add: flush_remaining_def Let_def save_results_batch_failed)

lemma buffer_outcome_step:
  assumes "consistent st" "\<forall>k. disk k" "0 < B" "length (batch_results st) < B"
  shows "consistent (buffer_outcome disk B st r)
       \<and> all_rows (buffer_outcome disk B st r) = all_rows st @ [r]
       \<and> length (batch_results (buffer_outcome disk B st r))
           = Suc (length (batch_results st)) mod B"
proof (cases "Suc (length (batch_results st)) < B")
  case True
  with assms show ?thesis
    by (simp add: buffer_outcome_below consistent_def all_rows_def)
next
  case False
  then have eq: "Suc (length (batch_results st)) = B" using assms(4) by simp
  have le: "B \<le> Suc (length (batch_results st))" using eq by simp
  have d: "disk (to_csv_calls st)" using assms(2) by simp
  have f: "is_first_batch st \<longrightarrow> results_file st = Missing"
    using assms(1) by (simp add: consistent_def)
  have u: "results_file st \<noteq> Unreadable" using assms(1) by (simp add: consistent_def)
  show ?thesis
    unfolding buffer_outcome_flush [where B = B and st = st and disk = disk and r = r, OF le d f]
    using u eq by (simp add: consistent_def all_rows_def store_rows_append append_rows_readable)
qed

lemma buffer_outcomes_fold:
  assumes "\<forall>k. disk k" "0 < B"
  shows "consistent st \<Longrightarrow> length (batch_results st) < B \<Longrightarrow>
         consistent (fold (\<lambda>r st. buffer_outcome disk B st r) rs st)
       \<and> all_rows (fold (\<lambda>r st. buffer_outcome disk B st r) rs st) = all_rows st @ rs
       \<and> length (batch_results (fold (\<lambda>r st. buffer_outcome disk B st r) rs st))
           = (length (batch_results st) + length rs) mod B"
proof (induction rs arbitrary: st)
  case Nil
  then show ?case by simp
next
  case (Cons r rs)
  note s = buffer_outcome_step [OF Cons.prems(1) assms(1) assms(2) Cons.prems(2), of r]
  have lt: "length (batch_results (buffer_outcome disk B st r)) < B"
    using s assms(2) by simp
  have m: "(Suc (length (batch_results st)) mod B + length rs) mod B
             = (length (batch_results st) + length (r # rs)) mod B"
    by (simp add: mod_add_left_eq)
  from Cons.IH [OF conjunct1 [OF s] lt] s m
  show ?case by simp
qed

lemma student_completed_bound:
  "0 < B \<Longrightarrow> length (batch_results st) < B \<Longrightarrow>
   length (batch_results (student_completed disk B st out)) < B"
  by (simp add: student_completed_def Let_def)

lemma student_completed_flush:
  assumes "snd out = None" "fst out \<noteq> []" "B \<le> length (batch_results st @ fst out)"
    "disk (to_csv_calls st)" "is_first_batch st \<longrightarrow> results_file st = Missing"
  shows "student_completed disk B st out =
     st\<lparr>results_file := append_rows (results_file st) (batch_results st @ fst out),
        to_csv_calls := to_csv_calls st + 1,
        printed := printed st @ [Print_saved (length (batch_results st @ fst out))],
        batch_results := [],
        is_first_batch := False\<rparr>"
  using assms
  by (simp add: student_completed_def Let_def save_results_batch_ok)

lemma fold_threshold_outcomes:
  assumes "0 < B" "length rs = B" "\<forall>k. disk k" "store \<noteq> Unreadable"
  shows "results_file (fold (\<lambda>r st. buffer_outcome disk B st r) rs (initial_state store))
           = append_rows store rs
       \<and> batch_results (fold (\<lambda>r st. buffer_outcome disk B st r) rs (initial_state store)) = []"
proof -
  let ?st = "fold (\<lambda>r st. buffer_outcome disk B st r) rs (initial_state store)"
  have c: "consistent (initial_state store)"
    using assms(4) by (simp add: consistent_def initial_state_def)
  have l: "length (batch_results (initial_state store)) < B"
    using assms(1) by (simp add: initial_state_def)
  note f = buffer_outcomes_fold [OF assms(3) assms(1) c l, of rs]
  have b: "batch_results ?st = []" using f assms(2) by (simp add: initial_state_def)
  have r: "store_rows (results_file ?st) = store_rows store @ rs"
    using f b by (simp add: all_rows_def initial_state_def)
  have ne: "rs \<noteq> []" using assms(1,2) by auto
  have u: "results_file ?st \<noteq> Unreadable" using f by (simp add: consistent_def)
  have "results_file ?st = append_rows store rs"
    using r ne u assms(4) by (cases "results_file ?st"; cases store) auto
  with b show ?thesis by simp
qed

text \<open>
  \<open>is_first_batch\<close> is set only while the results file is missing: this holds in the
  initial state and after every outcome, whether the write succeeds or not. It is the
  side condition under which an existing file is appended to and never overwritten.
\<close>

lemma first_batch_invariant:
  "is_first_batch (initial_state store) \<longrightarrow> results_file (initial_state store) = Missing"
  "(is_first_batch st \<longrightarrow> results_file st = Missing) \<Longrightarrow>
   is_first_batch (buffer_outcome disk B st r) \<longrightarrow>
     results_file (buffer_outcome disk B st r) = Missing"
  "(is_first_batch st \<longrightarrow> results_file st = Missing) \<Longrightarrow>
   is_first_batch (student_completed disk B st out) \<longrightarrow>
     results_file (student_completed disk B st out) = Missing"
  by (simp_all add: initial_state_def buffer_outcome_def student_completed_def Let_def)

text \<open>
  C6, amended. In \<open>assess_mastery.py\<close> a buffer shorter than the threshold stays
  shorter than the threshold after every outcome; below the threshold the outcome is
  only appended; the outcome that makes the buffer reach the threshold has exactly the
  buffered records written (a new file is created when none exists, otherwise the rows
  are appended to the existing ones) and the buffer cleared, when the write succeeds;
  the remaining non-empty buffer is written the same way at the end; and from the initial
  state, after as many outcomes as the threshold, the file holds exactly these rows more
  and the buffer is empty. In \<open>generate_tutoring_content.py\<close> the buffer is shorter
  than the threshold after every student, but the records of a student are added at once
  and the whole buffer, which may then be longer than the threshold, is written and
  cleared.
\<close>

theorem batch_flush_threshold:
  "(0 < B \<and> length (batch_results st) < B \<longrightarrow>
      length (batch_results (buffer_outcome disk B st r)) < B)
   \<and> (Suc (length (batch_results st)) < B \<longrightarrow>
      buffer_outcome disk B st r = st\<lparr>batch_results := batch_results st @ [r]\<rparr>)
   \<and> (Suc (length (batch_results st)) = B \<and> disk (to_csv_calls st)
        \<and> (is_first_batch st \<longrightarrow> results_file st = Missing) \<longrightarrow>
      results_file (buffer_outcome disk B st r)
        = append_rows (results_file st) (batch_results st @ [r])
      \<and> printed (buffer_outcome disk B st r) = printed st @ [Print_saved B]
      \<and> batch_results (buffer_outcome disk B st r) = [])
   \<and> (batch_results st \<noteq> [] \<and> disk (to_csv_calls st)
        \<and> (is_first_batch st \<longrightarrow> results_file st = Missing) \<longrightarrow>
      results_file (flush_remaining disk st)
        = append_rows (results_file st) (batch_results st)
      \<and> batch_results (flush_remaining disk st) = [])
   \<and> (0 < B \<and> length rs = B \<and> (\<forall>k. disk k) \<and> store \<noteq> Unreadable \<longrightarrow>
      results_file (fold (\<lambda>r st. buffer_outcome disk B st r) rs (initial_state store))
        = append_rows store rs
      \<and> batch_results (fold (\<lambda>r st. buffer_outcome disk B st r) rs (initial_state store)) = [])
   \<and> (0 < B \<and> length (batch_results st) < B \<longrightarrow>
      length (batch_results (student_completed disk B st out)) < B)
   \<and> (snd out = None \<and> fst out \<noteq> [] \<and> B \<le> length (batch_results st @ fst out)
        \<and> disk (to_csv_calls st) \<and> (is_first_batch st \<longrightarrow> results_file st = Missing) \<longrightarrow>
      results_file (student_completed disk B st out)
        = append_rows (results_file st) (batch_results st @ fst out)
      \<and> printed (student_completed disk B st out)
        = printed st @ [Print_saved (length (batch_results st @ fst out))]
      \<and> batch_results (student_completed disk B st out) = [])"
proof -
  have 1: "0 < B \<and> length (batch_results st) < B \<longrightarrow>
      length (batch_results (buffer_outcome disk B st r)) < B"
    by (simp add: buffer_outcome_def Let_def)
  have 2: "Suc (length (batch_results st)) < B \<longrightarrow>
      buffer_outcome disk B st r = st\<lparr>batch_results := batch_results st @ [r]\<rparr>"
    by (simp add: buffer_outcome_below)
  have 3: "Suc (length (batch_results st)) = B \<and> disk (to_csv_calls st)
        \<and> (is_first_batch st \<longrightarrow> results_file st = Missing) \<longrightarrow>
      results_file (buffer_outcome disk B st r)
        = append_rows (results_file st) (batch_results st @ [r])
      \<and> printed (buffer_outcome disk B st r) = printed st @ [Print_saved B]
      \<and> batch_results (buffer_outcome disk B st r) = []"
    by (auto simp: buffer_outcome_flush)
  have 4: "batch_results st \<noteq> [] \<and> disk (to_csv_calls st)
        \<and> (is_first_batch st \<longrightarrow> results_file st = Missing) \<longrightarrow>
      results_file (flush_remaining disk st)
        = append_rows (results_file st) (batch_results st)
      \<and> batch_results (flush_remaining disk st) = []"
    by (auto simp: flush_remaining_ok)
  have 5: "0 < B \<and> length rs = B \<and> (\<forall>k. disk k) \<and> store \<noteq> Unreadable \<longrightarrow>
      results_file (fold (\<lambda>r st. buffer_outcome disk B st r) rs (initial_state store))
        = append_rows store rs
      \<and> batch_results (fold (\<lambda>r st. buffer_outcome disk B st r) rs (initial_state store)) = []"
    using fold_threshold_outcomes [of B rs disk store] by blast
  have 6: "0 < B \<and> length (batch_results st) < B \<longrightarrow>
      length (batch_results (student_completed disk B st out)) < B"
    by (simp add: student_completed_bound)
  have 7: "snd out = None \<and> fst out \<noteq> [] \<and> B \<le> length (batch_results st @ fst out)
        \<and> disk (to_csv_calls st) \<and> (is_first_batch st \<longrightarrow> results_file st = Missing) \<longrightarrow>
      results_file (student_completed disk B st out)
        = append_rows (results_file st) (batch_results st @ fst out)
      \<and> printed (student_completed disk B st out)
        = printed st @ [Print_saved (length (batch_results st @ fst out))]
      \<and> batch_results (student_completed disk B st out) = []"
    using student_completed_flush [of out B st disk] by auto
  from 1 2 3 4 5 6 7 show ?thesis by blast
qed

theorem batch_flush_threshold_witness:
  "length (batch_results (buffer_outcome always_succeeds 2
      ((initial_state Missing)\<lparr>batch_results := [5::nat]\<rparr>) 6)) < 2
   \<and> buffer_outcome always_succeeds 3 ((initial_state Missing)\<lparr>batch_results := [5::nat]\<rparr>) 6
       = (initial_state Missing)\<lparr>batch_results := [5, 6]\<rparr>
   \<and> results_file (buffer_outcome always_succeeds 2
        ((initial_state Missing)\<lparr>batch_results := [5::nat]\<rparr>) 6) = Csv [5, 6]
   \<and> results_file (flush_remaining always_succeeds
        ((initial_state (Csv [4]))\<lparr>batch_results := [5::nat]\<rparr>)) = Csv [4, 5]
   \<and> results_file (fold (\<lambda>r st. buffer_outcome always_succeeds 2 st r) [7, 8]
        (initial_state (Csv [4::nat]))) = Csv [4, 7, 8]
   \<and> length (batch_results (student_completed always_succeeds 2
        ((initial_state Missing)\<lparr>batch_results := [5::nat]\<rparr>) ([7, 8, 9], None))) < 2
   \<and> results_file (student_completed always_succeeds 2
        ((initial_state Missing)\<lparr>batch_results := [5::nat]\<rparr>) ([7, 8, 9], None))
       = Csv [5, 7, 8, 9]"
proof -
  let ?s = "(initial_state Missing)\<lparr>batch_results := [5::nat]\<rparr>"
  let ?t = "(initial_state (Csv [4]))\<lparr>batch_results := [5::nat]\<rparr>"
  have s: "to_csv_calls ?s = 0" "results_file ?s = Missing" "batch_results ?s = [5]"
    by (simp_all add: initial_state_def)
  have t: "batch_results ?t = [5]" "to_csv_calls ?t = 0" "results_file ?t = Csv [4]"
    "\<not> is_first_batch ?t"
    by (simp_all add: initial_state_def)
  have d: "always_succeeds k" for k by (simp add: always_succeeds_def)
  note a = batch_flush_threshold [where B = 2 and st = ?s and r = "6::nat"
      and disk = always_succeeds and rs = "[7, 8 :: nat]" and store = "Csv [4::nat]"
      and out = "([7, 8, 9 :: nat], None)"]
  note b = batch_flush_threshold [where B = 3 and st = ?s and r = "6::nat"
      and disk = always_succeeds and rs = "[7, 8 :: nat]" and store = "Csv [4::nat]"
      and out = "([7, 8, 9 :: nat], None)"]
  note c = batch_flush_threshold [where B = 2 and st = ?t and r = "6::nat"
      and disk = always_succeeds and rs = "[7, 8 :: nat]" and store = "Csv [4::nat]"
      and out = "([7, 8, 9 :: nat], None)"]
  have 1: "length (batch_results (buffer_outcome always_succeeds 2 ?s 6)) < 2"
    using a s by simp
  have 2: "buffer_outcome always_succeeds 3 ?s 6 = (initial_state Missing)\<lparr>batch_results := [5, 6]\<rparr>"
    using b s by simp
  have 3: "results_file (buffer_outcome always_succeeds 2 ?s 6) = Csv [5, 6]"
    using a s d by simp
  have 4: "results_file (flush_remaining always_succeeds ?t) = Csv [4, 5]"
    using c t d by simp
  have 5: "results_file (fold (\<lambda>r st. buffer_outcome always_succeeds 2 st r) [7, 8]
        (initial_state (Csv [4::nat]))) = Csv [4, 7, 8]"
    using a d by simp
  have 6: "length (batch_results (student_completed always_succeeds 2 ?s ([7, 8, 9], None))) < 2"
    using a s by simp
  have 7: "results_file (student_completed always_succeeds 2 ?s ([7, 8, 9], None))
       = Csv [5, 7, 8, 9]"
    using a s d by simp
  from 1 2 3 4 5 6 7 show ?thesis by blast
qed

text \<open>
  C6, as stated, fails in \<open>main\<close> of \<open>generate_tutoring_content.py\<close>: the buffer is
  extended by all the records of a student at once and tested afterwards. With the
  threshold 10, nine records of a first student stay in the buffer, nine of a second
  student join them, and one \<open>to_csv\<close> call writes the eighteen.
\<close>

theorem tutoring_buffer_exceeds_threshold:
  "tutoring_batch_size = 10
   \<and> batch_results (student_completed always_succeeds tutoring_batch_size
        (initial_state Missing) (replicate 9 (1::nat), None)) = replicate 9 1
   \<and> printed (student_completed always_succeeds tutoring_batch_size
        (student_completed always_succeeds tutoring_batch_size
           (initial_state Missing) (replicate 9 (1::nat), None))
        (replicate 9 2, None)) = [Print_saved 18]"
  by (simp add: tutoring_batch_size_def student_completed_def initial_state_def
        save_results_batch_def always_succeeds_def Let_def)

lemma student_completed_flush_failed:
  assumes "B \<le> length (batch_results st @ results)" "batch_results st @ results \<noteq> []"
    "\<not> disk (to_csv_calls st)"
  shows "student_completed disk B st (results, None) =
     st\<lparr>to_csv_calls := to_csv_calls st + 1,
        printed := printed st @ [Print_save_failed],
        batch_results := [],
        is_first_batch := False\<rparr>"
  using assms
  by (cases "results = []")
     (simp_all add: student_completed_def Let_def save_results_batch_failed)

lemma save_results_batch_buffer:
  "batch_results (save_results_batch disk batch first st) = batch_results st
   \<and> total_saved (save_results_batch disk batch first st) = total_saved st
   \<and> is_first_batch (save_results_batch disk batch first st) = is_first_batch st"
  by (simp add: save_results_batch_def)

lemma callers_clear_buffer:
  "(B \<le> Suc (length (batch_results st)) \<longrightarrow>
      batch_results (buffer_outcome disk B st r) = []
      \<and> total_saved (buffer_outcome disk B st r)
          = total_saved st + Suc (length (batch_results st)))
   \<and> batch_results (flush_remaining disk st) = []
   \<and> total_saved (flush_remaining disk st) = total_saved st + length (batch_results st)
   \<and> (B \<le> length (batch_results st @ results) \<longrightarrow>
        batch_results (student_completed disk B st (results, None)) = [])"
  by (simp add: buffer_outcome_def flush_remaining_def student_completed_def Let_def
        save_results_batch_buffer)

text \<open>
  C7, as stated, fails: \<open>save_results_batch\<close> catches the exception and returns, and
  its callers clear the buffer whatever happened. With 99 records buffered, no results
  file and a disk that fails, the hundredth outcome leaves an empty buffer and still no
  file: the buffer does not hold the hundred records any more, they are counted in
  \<open>total_saved\<close>, and only the failure message was printed.
\<close>

theorem failed_flush_drops_batch:
  "batch_results ((initial_state Missing)\<lparr>batch_results := replicate 99 (1::nat)\<rparr>)
     = replicate 99 1
   \<and> \<not> always_fails 0
   \<and> batch_results (buffer_outcome always_fails BATCH_SIZE
        ((initial_state Missing)\<lparr>batch_results := replicate 99 (1::nat)\<rparr>) 1) = []
   \<and> results_file (buffer_outcome always_fails BATCH_SIZE
        ((initial_state Missing)\<lparr>batch_results := replicate 99 (1::nat)\<rparr>) 1) = Missing
   \<and> printed (buffer_outcome always_fails BATCH_SIZE
        ((initial_state Missing)\<lparr>batch_results := replicate 99 (1::nat)\<rparr>) 1)
       = [Print_save_failed]
   \<and> total_saved (buffer_outcome always_fails BATCH_SIZE
        ((initial_state Missing)\<lparr>batch_results := replicate 99 (1::nat)\<rparr>) 1) = 100"
  by (simp add: BATCH_SIZE_def buffer_outcome_def initial_state_def
        save_results_batch_def always_fails_def Let_def)

text \<open>
  C7, amended. When the write fails, \<open>save_results_batch\<close> prints the failure, leaves
  the file as it was and returns normally, after that one attempt to write. Its caller
  then does what it does after a write that succeeded: at the threshold and at the final
  flush of \<open>assess_mastery.py\<close> it adds the length of the batch to \<open>total_saved\<close> and
  clears the buffer, and the loop of \<open>generate_tutoring_content.py\<close> resets the buffer.
  So the buffer is not unchanged by a failed flush: it is empty afterwards, as it is after
  every flush, whatever the disk did, and the batch is counted as saved. Each equation
  below gives the whole state after the step: the fields it does not list, the results
  file among them, are those of the state before.
\<close>

theorem failed_flush_behaviour:
  "(batch \<noteq> [] \<and> \<not> disk (to_csv_calls st) \<longrightarrow>
      save_results_batch disk batch first st
        = st\<lparr>to_csv_calls := to_csv_calls st + 1,
             printed := printed st @ [Print_save_failed]\<rparr>)
   \<and> (B \<le> Suc (length (batch_results st)) \<and> \<not> disk (to_csv_calls st) \<longrightarrow>
      buffer_outcome disk B st r
        = st\<lparr>to_csv_calls := to_csv_calls st + 1,
             printed := printed st @ [Print_save_failed],
             total_saved := total_saved st + Suc (length (batch_results st)),
             batch_results := [],
             is_first_batch := False\<rparr>)
   \<and> (batch_results st \<noteq> [] \<and> \<not> disk (to_csv_calls st) \<longrightarrow>
      flush_remaining disk st
        = st\<lparr>to_csv_calls := to_csv_calls st + 1,
             printed := printed st @ [Print_save_failed],
             total_saved := total_saved st + length (batch_results st),
             batch_results := []\<rparr>)
   \<and> (B \<le> length (batch_results st @ results) \<and> batch_results st @ results \<noteq> []
        \<and> \<not> disk (to_csv_calls st) \<longrightarrow>
      student_completed disk B st (results, None)
        = st\<lparr>to_csv_calls := to_csv_calls st + 1,
             printed := printed st @ [Print_save_failed],
             batch_results := [],
             is_first_batch := False\<rparr>)
   \<and> (B \<le> Suc (length (batch_results st)) \<longrightarrow>
      batch_results (buffer_outcome disk B st r) = []
      \<and> total_saved (buffer_outcome disk B st r)
          = total_saved st + Suc (length (batch_results st)))
   \<and> batch_results (flush_remaining disk st) = []
   \<and> total_saved (flush_remaining disk st) = total_saved st + length (batch_results st)
   \<and> (B \<le> length (batch_results st @ results) \<longrightarrow>
        batch_results (student_completed disk B st (results, None)) = [])"
  using callers_clear_buffer [of B st disk r results]
  by (simp add: save_results_batch_failed buffer_outcome_flush_failed flush_remaining_failed
        student_completed_flush_failed)

theorem failed_flush_behaviour_witness:
  "save_results_batch always_fails [5::nat] False (initial_state (Csv [4]))
     = \<lparr>results_file = Csv [4], to_csv_calls = 1, printed = [Print_save_failed],
        batch_results = [], is_first_batch = False, total_saved = 0,
        student_results_map = []\<rparr>
   \<and> buffer_outcome always_fails 2 ((initial_state (Csv [4]))\<lparr>batch_results := [5::nat]\<rparr>) 6
     = \<lparr>results_file = Csv [4], to_csv_calls = 1, printed = [Print_save_failed],
        batch_results = [], is_first_batch = False, total_saved = 2,
        student_results_map = []\<rparr>
   \<and> flush_remaining always_fails ((initial_state (Csv [4]))\<lparr>batch_results := [5::nat]\<rparr>)
     = \<lparr>results_file = Csv [4], to_csv_calls = 1, printed = [Print_save_failed],
        batch_results = [], is_first_batch = False, total_saved = 1,
        student_results_map = []\<rparr>
   \<and> student_completed always_fails 2
        ((initial_state (Csv [4]))\<lparr>batch_results := [5::nat]\<rparr>) ([6, 7], None)
     = \<lparr>results_file = Csv [4], to_csv_calls = 1, printed = [Print_save_failed],
        batch_results = [], is_first_batch = False, total_saved = 0,
        student_results_map = []\<rparr>"
proof -
  let ?t = "(initial_state (Csv [4]))\<lparr>batch_results := [5::nat]\<rparr>"
  have d: "\<not> always_fails k" for k by (simp add: always_fails_def)
  have a: "save_results_batch always_fails [5::nat] False (initial_state (Csv [4]))
        = (initial_state (Csv [4]))\<lparr>to_csv_calls := to_csv_calls (initial_state (Csv [4::nat])) + 1,
             printed := printed (initial_state (Csv [4::nat])) @ [Print_save_failed]\<rparr>"
    using failed_flush_behaviour [where batch = "[5::nat]" and disk = always_fails
      and st = "initial_state (Csv [4])" and first = False and B = 0 and r = 0
      and results = "[]"] d
    by simp
  have b: "buffer_outcome always_fails 2 ?t 6
        = ?t\<lparr>to_csv_calls := to_csv_calls ?t + 1,
             printed := printed ?t @ [Print_save_failed],
             total_saved := total_saved ?t + Suc (length (batch_results ?t)),
             batch_results := [],
             is_first_batch := False\<rparr>"
    using failed_flush_behaviour [where batch = "[]" and disk = always_fails
      and st = ?t and first = False and B = 2 and r = 6 and results = "[]"] d
    by (simp add: initial_state_def)
  have c: "flush_remaining always_fails ?t
        = ?t\<lparr>to_csv_calls := to_csv_calls ?t + 1,
             printed := printed ?t @ [Print_save_failed],
             total_saved := total_saved ?t + length (batch_results ?t),
             batch_results := []\<rparr>"
    using failed_flush_behaviour [where batch = "[]" and disk = always_fails
      and st = ?t and first = False and B = 2 and r = 6 and results = "[]"] d
    by (simp add: initial_state_def)
  have e: "student_completed always_fails 2 ?t ([6, 7], None)
        = ?t\<lparr>to_csv_calls := to_csv_calls ?t + 1,
             printed := printed ?t @ [Print_save_failed],
             batch_results := [],
             is_first_batch := False\<rparr>"
    using failed_flush_behaviour [where batch = "[]" and disk = always_fails
      and st = ?t and first = False and B = 2 and r = 6 and results = "[6, 7]"] d
    by (simp add: initial_state_def)
  show ?thesis
    unfolding a b c e by (simp add: initial_state_def)
qed


section \<open>The concurrency governor\<close>

lemma count_update:
  "i < length xs \<Longrightarrow>
   length (filter P (xs[i := y])) + (if P (xs ! i) then 1 else 0)
     = length (filter P xs) + (if P y then 1 else 0)"
proof (induction xs arbitrary: i)
  case Nil
  then show ?case by simp
next
  case (Cons x xs)
  show ?case
  proof (cases i)
    case 0
    then show ?thesis by simp
  next
    case (Suc j)
    with Cons.prems have "j < length xs" by simp
    from Cons.IH [OF this] Suc show ?thesis by simp
  qed
qed

text \<open>Every step keeps the sum of the tasks inside the block and the free slots.\<close>

lemma step_invariant:
  assumes "step s s'"
  shows "admitted s' + sem_value s' = admitted s + sem_value s
         \<and> length (pcs s') = length (pcs s)"
  using assms
proof cases
  case (wake i)
  with count_update [of i "pcs s" "\<lambda>p. p = Admitted" Waiting]
  show ?thesis by (simp add: admitted_def)
next
  case (acquire i)
  with count_update [of i "pcs s" "\<lambda>p. p = Admitted" Admitted]
  show ?thesis by (simp add: admitted_def)
next
  case (release i)
  with count_update [of i "pcs s" "\<lambda>p. p = Admitted" Finished]
  show ?thesis by (simp add: admitted_def)
qed

lemma reachable_invariant:
  "reachable permits n s \<Longrightarrow> admitted s + sem_value s = permits \<and> length (pcs s) = n"
proof (induction rule: reachable.induct)
  case initial
  show ?case by (simp add: start_def admitted_def)
next
  case (after s s')
  with step_invariant [of s s'] show ?case by simp
qed

lemma zero_permits:
  "reachable 0 n s \<Longrightarrow> \<forall>p \<in> set (pcs s). p = Delayed \<or> p = Waiting"
proof (induction rule: reachable.induct)
  case initial
  show ?case by (simp add: start_def)
next
  case (after s s')
  have z: "sem_value s = 0" using reachable_invariant [OF after.hyps(1)] by simp
  from after.hyps(2) show ?case
  proof cases
    case (wake i)
    then show ?thesis
      using after.IH by (auto dest!: set_update_subset_insert [THEN subsetD])
  next
    case (acquire i)
    with z show ?thesis by simp
  next
    case (release i)
    then have "pcs s ! i \<in> set (pcs s)" using nth_mem [of i "pcs s"] by blast
    with after.IH release show ?thesis by auto
  qed
qed

lemma reachable_example:
  "reachable 1 2 \<lparr>sem_value = 0, pcs = [Admitted, Waiting]\<rparr>"
proof -
  have 0: "reachable 1 2 \<lparr>sem_value = 1, pcs = [Delayed, Delayed]\<rparr>"
    using reachable.initial [of 1 2] by (simp add: start_def numeral_2_eq_2)
  have 1: "reachable 1 2 \<lparr>sem_value = 1, pcs = [Waiting, Delayed]\<rparr>"
    using reachable.after [OF 0 step.wake [of 0]] by simp
  have 2: "reachable 1 2 \<lparr>sem_value = 1, pcs = [Waiting, Waiting]\<rparr>"
    using reachable.after [OF 1 step.wake [of 1]] by simp
  show ?thesis
    using reachable.after [OF 2 step.acquire [of 0]] by simp
qed

lemma reachable_zero_example:
  "reachable 0 2 \<lparr>sem_value = 0, pcs = [Waiting, Delayed]\<rparr>"
proof -
  have 0: "reachable 0 2 \<lparr>sem_value = 0, pcs = [Delayed, Delayed]\<rparr>"
    using reachable.initial [of 0 2] by (simp add: start_def numeral_2_eq_2)
  show ?thesis
    using reachable.after [OF 0 step.wake [of 0]] by simp
qed

text \<open>
  C8. With a semaphore made from the concurrency limit, in every state that the tasks
  can reach by any interleaving of their steps, the number of tasks inside the
  \<open>async with semaphore\<close> block is at most the limit.
\<close>

theorem concurrency_bound:
  "Semaphore concurrency_limit = Inr permits \<and> reachable permits n s
     \<longrightarrow> int (admitted s) \<le> concurrency_limit"
proof
  assume a: "Semaphore concurrency_limit = Inr permits \<and> reachable permits n s"
  then have "admitted s \<le> permits"
    using reachable_invariant [of permits n s] by simp
  moreover have "int permits = concurrency_limit"
    using a by (auto simp: Semaphore_def split: if_splits)
  ultimately show "int (admitted s) \<le> concurrency_limit" by simp
qed

theorem concurrency_bound_witness:
  "Semaphore 1 = Inr 1
   \<and> reachable 1 2 \<lparr>sem_value = 0, pcs = [Admitted, Waiting]\<rparr>
   \<and> int (admitted \<lparr>sem_value = 0, pcs = [Admitted, Waiting]\<rparr>) \<le> 1"
proof -
  have s: "Semaphore 1 = Inr 1" by (simp add: Semaphore_def)
  from concurrency_bound [of 1 1 2 "\<lparr>sem_value = 0, pcs = [Admitted, Waiting]\<rparr>"]
    s reachable_example
  show ?thesis by blast
qed

text \<open>
  C5, as stated, fails: none of the scripts tests the concurrency value. The value 0 makes a
  semaphore without a free slot, and an absent option makes one with the default 30
  slots; neither is an error.
\<close>

theorem concurrency_zero_not_rejected:
  "Semaphore (concurrency_arg (Some 0)) = Inr 0
   \<and> Semaphore (concurrency_arg None) = Inr 30"
  by (simp add: Semaphore_def concurrency_arg_def)

text \<open>
  C5, amended. A missing concurrency option takes the default 30. The value 0 is
  accepted: the semaphore is made with no free slot, and then no task is ever inside
  the block, in any reachable state, so no task finishes either. Only a negative value
  is rejected, by the \<open>ValueError\<close> of the semaphore's constructor.
\<close>

theorem concurrency_zero_admits_nothing:
  "Semaphore (concurrency_arg None) = Inr 30
   \<and> Semaphore (concurrency_arg (Some 0)) = Inr 0
   \<and> (c < 0 \<longrightarrow> Semaphore (concurrency_arg (Some c)) = Inl ValueError)
   \<and> (reachable 0 n s \<longrightarrow>
        admitted s = 0 \<and> (\<forall>p \<in> set (pcs s). p = Delayed \<or> p = Waiting))"
  using reachable_invariant [of 0 n s] zero_permits [of n s]
  by (simp add: Semaphore_def concurrency_arg_def)

theorem concurrency_zero_admits_nothing_witness:
  "Semaphore (concurrency_arg (Some (- 1))) = Inl ValueError
   \<and> reachable 0 2 \<lparr>sem_value = 0, pcs = [Waiting, Delayed]\<rparr>
   \<and> admitted \<lparr>sem_value = 0, pcs = [Waiting, Delayed]\<rparr> = 0"
  using concurrency_zero_admits_nothing
    [of "- 1" 2 "\<lparr>sem_value = 0, pcs = [Waiting, Delayed]\<rparr>"]
    reachable_zero_example
  by simp


section \<open>Example questions\<close>

lemma render_question_id:
  "render_question qtm qcdf qid = Inr p \<Longrightarrow> question_id p = qid"
  by (auto simp: render_question_def Let_def split: if_splits sum.splits prod.splits)

lemma render_question_total:
  "length (filter (\<lambda>c. c_question_id c = qid) qcdf) \<le> 1114047 \<Longrightarrow>
   \<exists>p. render_question qtm qcdf qid = Inr p"
  by (auto simp: render_question_def letters_for_def Let_def split: sum.splits prod.splits)

lemma pick_loop_sound:
  "pick_loop qtm qcdf max_num cands picked = Inr result \<Longrightarrow>
   int (length picked) \<le> max_num \<Longrightarrow>
   int (length result) \<le> max_num
   \<and> question_id ` set result \<subseteq> question_id ` set picked \<union> set cands"
proof (induction cands arbitrary: picked)
  case Nil
  then show ?case by auto
next
  case (Cons qid rest)
  show ?case
  proof (cases "int (length picked) \<ge> max_num")
    case True
    with Cons.prems show ?thesis by auto
  next
    case False
    then obtain p where p: "render_question qtm qcdf qid = Inr p"
      and r: "pick_loop qtm qcdf max_num rest (picked @ [p]) = Inr result"
      using Cons.prems(1) by (auto split: sum.splits)
    have "int (length (picked @ [p])) \<le> max_num" using False by simp
    from Cons.IH [OF r this] render_question_id [OF p]
    show ?thesis by auto
  qed
qed

lemma pick_loop_total:
  "\<forall>qid \<in> set cands. length (filter (\<lambda>c. c_question_id c = qid) qcdf) \<le> 1114047 \<Longrightarrow>
   \<exists>result. pick_loop qtm qcdf max_num cands picked = Inr result"
proof (induction cands arbitrary: picked)
  case Nil
  then show ?case by simp
next
  case (Cons qid rest)
  then obtain p where p: "render_question qtm qcdf qid = Inr p"
    using render_question_total [of qid qcdf qtm] by auto
  from Cons.IH [of "picked @ [p]"] Cons.prems p show ?case by auto
qed

text \<open>
  C9. Whatever permutation \<open>random.shuffle\<close> makes, a result of
  \<open>_select_three_questions_for_kc\<close> with \<open>max_num = 3\<close> has at most three entries and
  none of them has a question id of the test set. The function returns a result (it
  does not raise) whenever no question has more choice rows than \<open>chr\<close> has letters
  from \<open>A\<close> on.
\<close>

theorem select_three_questions_excludes_test_set:
  "(\<forall>xs. mset (shuffle xs) = mset xs) \<longrightarrow>
     (\<forall>picked. select_three_questions_for_kc shuffle kc kc_to_questions_map
          test_question_ids question_text_map question_choices_df 3 = Inr picked \<longrightarrow>
        length picked \<le> 3
        \<and> (\<forall>p \<in> set picked. question_id p \<notin> test_question_ids))
     \<and> ((\<forall>qid. length (filter (\<lambda>c. c_question_id c = qid) question_choices_df) \<le> 1114047)
          \<longrightarrow> (\<exists>picked. select_three_questions_for_kc shuffle kc kc_to_questions_map
                 test_question_ids question_text_map question_choices_df 3 = Inr picked))"
proof
  assume perm: "\<forall>xs. mset (shuffle xs) = mset xs"
  have sh: "set (shuffle xs) = set xs" for xs
    using perm by (metis set_mset_mset)
  let ?sel = "select_three_questions_for_kc shuffle kc kc_to_questions_map
          test_question_ids question_text_map question_choices_df 3"
  have sound: "length picked \<le> 3 \<and> (\<forall>p \<in> set picked. question_id p \<notin> test_question_ids)"
    if "?sel = Inr picked" for picked
  proof (cases "(case kc_to_questions_map kc of None \<Rightarrow> [] | Some qs \<Rightarrow> qs) = []")
    case True
    with that show ?thesis by (simp add: select_three_questions_for_kc_def)
  next
    case False
    let ?qs = "case kc_to_questions_map kc of None \<Rightarrow> [] | Some qs \<Rightarrow> qs"
    let ?cands = "shuffle (filter (\<lambda>qid. qid \<notin> test_question_ids) ?qs)"
    from that False
    have "pick_loop question_text_map question_choices_df 3 ?cands [] = Inr picked"
      by (simp add: select_three_questions_for_kc_def Let_def)
    from pick_loop_sound [OF this]
    have "int (length picked) \<le> 3" and "question_id ` set picked \<subseteq> set ?cands" by auto
    then show ?thesis by (auto simp: sh)
  qed
  have total: "\<exists>picked. ?sel = Inr picked"
    if "\<forall>qid. length (filter (\<lambda>c. c_question_id c = qid) question_choices_df) \<le> 1114047"
    using that pick_loop_total [of _ question_choices_df question_text_map 3 "[]"]
    by (simp add: select_three_questions_for_kc_def Let_def)
  show "(\<forall>picked. ?sel = Inr picked \<longrightarrow>
        length picked \<le> 3
        \<and> (\<forall>p \<in> set picked. question_id p \<notin> test_question_ids))
     \<and> ((\<forall>qid. length (filter (\<lambda>c. c_question_id c = qid) question_choices_df) \<le> 1114047)
          \<longrightarrow> (\<exists>picked. ?sel = Inr picked))"
    using sound total by blast
qed

theorem select_three_questions_excludes_test_set_witness:
  "(\<forall>xs. mset (rev xs) = mset (xs :: nat list))
   \<and> select_three_questions_for_kc rev ''fractions'' [''fractions'' \<mapsto> [1, 2, 3, 4, 5]]
        {2, 5} [4 \<mapsto> Some '' 1/2 + 1/2 = ? ''] example_choices 3
      = Inr [\<lparr>question_id = 4, question_text = ''1/2 + 1/2 = ?'',
               choices = [\<lparr>rc_letter = 65, rc_text = ''one half''\<rparr>,
                          \<lparr>rc_letter = 66, rc_text = ''one''\<rparr>],
               correct_letter = Some 66, correct_text = Some ''one''\<rparr>,
             \<lparr>question_id = 3, question_text = [], choices = [],
               correct_letter = None, correct_text = None\<rparr>,
             \<lparr>question_id = 1, question_text = [], choices = [],
               correct_letter = None, correct_text = None\<rparr>]
   \<and> length (projr (select_three_questions_for_kc rev ''fractions''
          [''fractions'' \<mapsto> [1, 2, 3, 4, 5]] {2, 5} [4 \<mapsto> Some '' 1/2 + 1/2 = ? '']
          example_choices 3)) \<le> 3
   \<and> list_all (\<lambda>p. question_id p \<notin> {2, 5})
        (projr (select_three_questions_for_kc rev ''fractions''
          [''fractions'' \<mapsto> [1, 2, 3, 4, 5]] {2, 5} [4 \<mapsto> Some '' 1/2 + 1/2 = ? '']
          example_choices 3))"
proof -
  define sel where "sel = select_three_questions_for_kc rev ''fractions''
        [''fractions'' \<mapsto> [1, 2, 3, 4, 5]] {2, 5} [4 \<mapsto> Some '' 1/2 + 1/2 = ? '']
        example_choices 3"
  define L where "L = [\<lparr>question_id = 4, question_text = ''1/2 + 1/2 = ?'',
               choices = [\<lparr>rc_letter = 65, rc_text = ''one half''\<rparr>,
                          \<lparr>rc_letter = 66, rc_text = ''one''\<rparr>],
               correct_letter = Some 66, correct_text = Some ''one''\<rparr>,
             \<lparr>question_id = 3, question_text = [], choices = [],
               correct_letter = None, correct_text = None\<rparr>,
             \<lparr>question_id = 1, question_text = [], choices = [],
               correct_letter = None, correct_text = None\<rparr>]"
  have 1: "\<forall>xs. mset (rev xs) = mset (xs :: nat list)" by simp
  have 2: "sel = Inr L"
    unfolding sel_def L_def
    by (simp add: select_three_questions_for_kc_def render_question_def example_choices_def
          letters_for_def truncate_text_def strip_def is_space_def Let_def upt_rec)
  have t: "\<forall>picked. sel = Inr picked \<longrightarrow>
          length picked \<le> 3 \<and> (\<forall>p \<in> set picked. question_id p \<notin> {2, 5})"
    unfolding sel_def
    by (rule select_three_questions_excludes_test_set
               [of rev "''fractions''" "[''fractions'' \<mapsto> [1, 2, 3, 4, 5]]" "{2, 5}"
                   "[4 \<mapsto> Some '' 1/2 + 1/2 = ? '']" example_choices,
                THEN mp, OF 1, THEN conjunct1])
  from t 2 have p: "length L \<le> 3 \<and> (\<forall>p \<in> set L. question_id p \<notin> {2, 5})" by blast
  have 3: "length (projr sel) \<le> 3" using p 2 by simp
  have 4: "list_all (\<lambda>p. question_id p \<notin> {2, 5}) (projr sel)"
    using p 2 by (simp add: list_all_iff)
  from 1 2 3 4 show ?thesis
    unfolding sel_def L_def by (intro conjI)
qed


section \<open>Running a mode twice\<close>

















end
